theory Spec2Isabelle
  imports Complex_Main "HOL-Library.Char_ord" "HOL-Library.List_Lexorder" "HOL-Library.Sublist" "HOL-Library.Monad_Syntax"
begin

section \<open>Data model (types.ts)\<close>

text \<open>
  The three interfaces of the repository. A string is the list of the bytes of its UTF-8
  text; every character the program looks for (the percent sign, the conversion letters,
  the brace, the quote, the backslash, the control characters) is a single byte there, and
  no byte of a longer character equals one of them. \<open>suggestedFix\<close> is declared a string, but
  \<open>validateBatch\<close> copies the model's \<open>suggested_fix\<close> into it unchecked, so at run
  time it may be undefined: it is an option here. \<open>provider\<close> is a union of three string
  literals in the declaration, and \<open>initializeModel\<close> still has a branch for any other
  value: it is a string here.
\<close>

datatype problem_type = placeholder_mismatch | linguistic_review | grammar_issue

record ValidationProblem =
  type :: problem_type
  description :: string

record Translation =
  msgid :: string
  msgstr :: string

record TranslationIssue = Translation +
  problems :: "ValidationProblem list"
  suggestedFix :: "string option"

record ValidatorConfig =
  provider :: string
  modelName :: "string option"
  apiKey :: "string option"
  baseUrl :: "string option"

text \<open>A thrown error with its message; the catch clause of \<open>validateBatch\<close> reads the
  message with \<open>?.\<close>, so it may be missing.\<close>

datatype error = Error (message: "string option")

section \<open>JavaScript primitives\<close>

text \<open>
  What the source takes from the language: the truthiness of an optional string (undefined
  and the empty string are falsy), \<open>a || b\<close>, \<open>Array.prototype.join\<close>,
  \<open>String.prototype.startsWith\<close> and \<open>includes\<close>, indexing an array with a
  number (undefined outside the array), and the values of a \<open>Set\<close> in insertion order.
\<close>

definition truthy :: "string option \<Rightarrow> bool" where
  "truthy v = (case v of None \<Rightarrow> False | Some s \<Rightarrow> s \<noteq> [])"

definition js_or :: "string option \<Rightarrow> string \<Rightarrow> string" where
  "js_or v d = (case v of None \<Rightarrow> d | Some s \<Rightarrow> if s = [] then d else s)"

fun join :: "string \<Rightarrow> string list \<Rightarrow> string" where
  "join sep [] = []"
| "join sep [x] = x"
| "join sep (x # y # ys) = x @ sep @ join sep (y # ys)"

fun startsWith :: "string \<Rightarrow> string \<Rightarrow> bool" where
  "startsWith s [] = True"
| "startsWith [] (p # ps) = False"
| "startsWith (c # cs) (p # ps) = (c = p \<and> startsWith cs ps)"

fun str_includes :: "string \<Rightarrow> string \<Rightarrow> bool" where
  "str_includes [] sub = (sub = [])"
| "str_includes (c # cs) sub = (startsWith (c # cs) sub \<or> str_includes cs sub)"

definition at_index :: "'a list \<Rightarrow> int \<Rightarrow> 'a option" where
  "at_index xs i = (if 0 \<le> i \<and> i < int (length xs) then Some (xs ! nat i) else None)"

text \<open>
  The numbers of the partition loop. \<open>batchSize\<close> is a JavaScript number, so it may be a
  fraction, \<open>NaN\<close> or an infinity, and so may the counter \<open>i\<close> that adds it up. A finite
  number is a rational here and sums are exact: they are exact in double arithmetic too for
  the integers and the halves below \<open>2^53\<close>, which is all that the statements about runs
  that return rely on; overflow of a finite sum to an infinity is not modelled.
  \<open>less_than_length\<close> is the loop condition \<open>i < validTranslations.length\<close>.
  \<open>slice\<close> is \<open>Array.prototype.slice\<close>: each bound goes through \<open>ToIntegerOrInfinity\<close>
  (\<open>NaN\<close> becomes 0, a fraction is truncated towards zero), a negative bound counts from
  the end, and both are clamped to the array.
\<close>

datatype number = Finite rat | NaN | PosInfinity | NegInfinity

fun js_add :: "number \<Rightarrow> number \<Rightarrow> number" where
  "js_add NaN y = NaN"
| "js_add x NaN = NaN"
| "js_add (Finite a) (Finite b) = Finite (a + b)"
| "js_add PosInfinity NegInfinity = NaN"
| "js_add NegInfinity PosInfinity = NaN"
| "js_add PosInfinity y = PosInfinity"
| "js_add x PosInfinity = PosInfinity"
| "js_add NegInfinity y = NegInfinity"
| "js_add x NegInfinity = NegInfinity"

fun less_than_length :: "number \<Rightarrow> nat \<Rightarrow> bool" where
  "less_than_length (Finite a) n = (a < of_nat n)"
| "less_than_length NaN n = False"
| "less_than_length PosInfinity n = False"
| "less_than_length NegInfinity n = True"

definition trunc :: "rat \<Rightarrow> int" where
  "trunc q = (if q < 0 then \<lceil>q\<rceil> else \<lfloor>q\<rfloor>)"

fun relative_index :: "nat \<Rightarrow> number \<Rightarrow> nat" where
  "relative_index len NaN = 0"
| "relative_index len NegInfinity = 0"
| "relative_index len PosInfinity = len"
| "relative_index len (Finite q) =
     (if trunc q < 0 then nat (max (int len + trunc q) 0) else nat (min (trunc q) (int len)))"

definition slice :: "'a list \<Rightarrow> number \<Rightarrow> number \<Rightarrow> 'a list" where
  "slice xs start fin =
     (let k = relative_index (length xs) start;
          final = relative_index (length xs) fin
      in take (final - k) (drop k xs))"

definition Set_values :: "'a list \<Rightarrow> 'a list" where
  "Set_values xs = foldl (\<lambda>seen x. if x \<in> set seen then seen else seen @ [x]) [] xs"

subsection \<open>JSON text of strings\<close>

text \<open>
  \<open>JSON.stringify\<close> on a string: the string in double quotes, with the quote, the
  backslash and the control characters escaped (the short escapes where JSON has one,
  \<open>\u00XX\<close> in lower-case hexadecimal otherwise). On an array of strings: the quoted
  elements, separated by commas, in brackets. \<open>parse_chars\<close> is \<open>JSON.parse\<close> on the
  characters of a string literal after its opening quote: it returns the string and what
  follows the closing quote, and fails on a raw control character, on an unknown escape
  and on a \<open>\u\<close> escape above \<open>\u007f\<close>, which \<open>JSON.stringify\<close> never writes.
\<close>

abbreviation dquote :: char where "dquote \<equiv> CHR 0x22"
abbreviation backslash :: char where "backslash \<equiv> CHR 0x5C"

definition hex_digit :: "nat \<Rightarrow> char" where
  "hex_digit n = ''0123456789abcdef'' ! n"

definition quote_char :: "char \<Rightarrow> string" where
  "quote_char c =
     (if c = dquote then [backslash, dquote]
      else if c = backslash then [backslash, backslash]
      else if c = CHR 0x08 then [backslash, CHR ''b'']
      else if c = CHR 0x0C then [backslash, CHR ''f'']
      else if c = CHR 0x0A then [backslash, CHR ''n'']
      else if c = CHR 0x0D then [backslash, CHR ''r'']
      else if c = CHR 0x09 then [backslash, CHR ''t'']
      else if (of_char c :: nat) < 32
        then [backslash, CHR ''u'', CHR ''0'', CHR ''0'',
              hex_digit (of_char c div 16), hex_digit (of_char c mod 16)]
      else [c])"

definition JSON_quote :: "string \<Rightarrow> string" where
  "JSON_quote s = dquote # concat (map quote_char s) @ [dquote]"

definition JSON_stringify_strings :: "string list \<Rightarrow> string" where
  "JSON_stringify_strings xs = ''['' @ join '','' (map JSON_quote xs) @ '']''"

fun type_name :: "problem_type \<Rightarrow> string" where
  "type_name placeholder_mismatch = ''placeholder_mismatch''"
| "type_name linguistic_review = ''linguistic_review''"
| "type_name grammar_issue = ''grammar_issue''"

definition JSON_stringify_problem :: "ValidationProblem \<Rightarrow> string" where
  "JSON_stringify_problem p =
     ''{'' @ JSON_quote ''type'' @ '':'' @ JSON_quote (type_name (type p)) @ '','' @
     JSON_quote ''description'' @ '':'' @ JSON_quote (description p) @ ''}''"

definition hex_value :: "char \<Rightarrow> nat option" where
  "hex_value c =
     (let n = (of_char c :: nat) in
      if 48 \<le> n \<and> n \<le> 57 then Some (n - 48)
      else if 97 \<le> n \<and> n \<le> 102 then Some (n - 87)
      else if 65 \<le> n \<and> n \<le> 70 then Some (n - 55)
      else None)"

definition simple_escape :: "char \<Rightarrow> char option" where
  "simple_escape e =
     (if e = dquote then Some dquote
      else if e = backslash then Some backslash
      else if e = CHR ''/'' then Some (CHR ''/'')
      else if e = CHR ''b'' then Some (CHR 0x08)
      else if e = CHR ''f'' then Some (CHR 0x0C)
      else if e = CHR ''n'' then Some (CHR 0x0A)
      else if e = CHR ''r'' then Some (CHR 0x0D)
      else if e = CHR ''t'' then Some (CHR 0x09)
      else None)"

definition unicode_escape :: "char \<Rightarrow> char \<Rightarrow> char \<Rightarrow> char \<Rightarrow> char option" where
  "unicode_escape a b c d =
     (case (hex_value a, hex_value b, hex_value c, hex_value d) of
        (Some h3, Some h2, Some h1, Some h0) \<Rightarrow>
          if h3 = 0 \<and> h2 = 0 \<and> 16 * h1 + h0 < 128 then Some (char_of (16 * h1 + h0)) else None
      | _ \<Rightarrow> None)"

fun parse_chars :: "string \<Rightarrow> (string \<times> string) option" where
  "parse_chars [] = None"
| "parse_chars (c # cs) =
     (if c = dquote then Some ([], cs)
      else if c = backslash then
        (case cs of
           [] \<Rightarrow> None
         | e # es \<Rightarrow>
             if e = CHR ''u'' then
               (case es of
                  a # b # x # y # rest \<Rightarrow>
                    (case unicode_escape a b x y of
                       None \<Rightarrow> None
                     | Some ch \<Rightarrow> map_option (apfst ((#) ch)) (parse_chars rest))
                | _ \<Rightarrow> None)
             else
               (case simple_escape e of
                  None \<Rightarrow> None
                | Some ch \<Rightarrow> map_option (apfst ((#) ch)) (parse_chars es)))
      else if (of_char c :: nat) < 32 then None
      else map_option (apfst ((#) c)) (parse_chars cs))"

subsection \<open>JSON text of a ValidationProblem, and reading it back\<close>

text \<open>
  \<open>JSON.stringify\<close> on a problem writes its two properties in the order the object
  literal gave them. \<open>JSON_parse_problem\<close> is \<open>JSON.parse\<close> on the texts of that form,
  which are the only ones line 137 of validator.ts hands to it.
\<close>

fun expect :: "string \<Rightarrow> string \<Rightarrow> string option" where
  "expect [] s = Some s"
| "expect (p # ps) [] = None"
| "expect (p # ps) (c # cs) = (if p = c then expect ps cs else None)"

definition parse_string :: "string \<Rightarrow> (string \<times> string) option" where
  "parse_string s = (case s of [] \<Rightarrow> None | c # cs \<Rightarrow> if c = dquote then parse_chars cs else None)"

definition type_of_name :: "string \<Rightarrow> problem_type option" where
  "type_of_name n =
     (if n = ''placeholder_mismatch'' then Some placeholder_mismatch
      else if n = ''linguistic_review'' then Some linguistic_review
      else if n = ''grammar_issue'' then Some grammar_issue
      else None)"

definition JSON_parse_problem :: "string \<Rightarrow> ValidationProblem option" where
  "JSON_parse_problem s =
     do {
       r1 \<leftarrow> expect (''{'' @ JSON_quote ''type'' @ '':'') s;
       (n, r2) \<leftarrow> parse_string r1;
       t \<leftarrow> type_of_name n;
       r3 \<leftarrow> expect ('','' @ JSON_quote ''description'' @ '':'') r2;
       (d, r4) \<leftarrow> parse_string r3;
       if r4 = ''}'' then Some \<lparr>type = t, description = d\<rparr> else None
     }"

section \<open>Model selection (initializeModel)\<close>

text \<open>
  The three clients are values holding what their constructors were given (the endpoint or
  the key, then the model name); the constructors of the client libraries are taken not to
  throw. The constructor of \<open>TranslationValidator\<close> does nothing but call
  \<open>initializeModel\<close>, which reads its argument and nothing else: no file and no reply of
  a model is among the arguments here, as none is read there.
\<close>

datatype model =
    ChatOllama string string
  | ChatAnthropic string string
  | ChatOpenAI string string

definition initializeModel :: "ValidatorConfig \<Rightarrow> error + model" where
  "initializeModel config =
     (if provider config = ''ollama'' then
        Inr (ChatOllama (js_or (baseUrl config) ''http://localhost:11434'')
                        (js_or (modelName config) ''llama2''))
      else if provider config = ''anthropic'' then
        (case apiKey config of
           None \<Rightarrow> Inl (Error (Some ''Anthropic API key is required''))
         | Some k \<Rightarrow>
             if k = [] then Inl (Error (Some ''Anthropic API key is required''))
             else Inr (ChatAnthropic k (js_or (modelName config) ''claude-3-sonnet-20240229'')))
      else if provider config = ''openai'' then
        (case apiKey config of
           None \<Rightarrow> Inl (Error (Some ''OpenAI API key is required''))
         | Some k \<Rightarrow>
             if k = [] then Inl (Error (Some ''OpenAI API key is required''))
             else Inr (ChatOpenAI k (js_or (modelName config) ''gpt-3.5-turbo'')))
      else Inl (Error (Some (''Unsupported provider: '' @ provider config))))"

definition TranslationValidator :: "ValidatorConfig \<Rightarrow> error + model" where
  "TranslationValidator config = initializeModel config"

section \<open>Placeholder extraction and the technical check\<close>

text \<open>
  \<open>text.match(/%[sdfg]/g) || []\<close>: the global match scans from the left, and after a match
  goes on behind it. In \<open>checkPlaceholderConsistency\<close> both arrays are sorted in place by
  \<open>sort()\<close> (code unit order) while the condition is evaluated, so the later \<open>filter\<close> and
  \<open>includes\<close> see the sorted arrays.
\<close>

fun extractPlaceholders :: "string \<Rightarrow> string list" where
  "extractPlaceholders (c # d # cs) =
     (if c = CHR ''%'' \<and> d \<in> set ''sdfg''
      then [c, d] # extractPlaceholders cs
      else extractPlaceholders (d # cs))"
| "extractPlaceholders _ = []"

definition checkPlaceholderConsistency :: "string \<Rightarrow> string \<Rightarrow> ValidationProblem list" where
  "checkPlaceholderConsistency msgid' msgstr' =
     (let originalPlaceholders = sort (extractPlaceholders msgid');
          translatedPlaceholders = sort (extractPlaceholders msgstr')
      in if JSON_stringify_strings originalPlaceholders \<noteq> JSON_stringify_strings translatedPlaceholders
         then [\<lparr>type = placeholder_mismatch,
                description = ''Missing placeholder(s): '' @
                  join '', '' (filter (\<lambda>p. p \<notin> set translatedPlaceholders) originalPlaceholders)\<rparr>]
         else [])"

section \<open>The batch validator (validateBatch)\<close>

text \<open>
  The model and \<open>JSON.parse\<close> on its reply are outside the repository. A call of
  \<open>validateBatch\<close> is given \<open>response\<close>, what lines 100 and 101 came to: the error that
  \<open>this.model.generate\<close> or the reading of the first completion threw, or
  \<open>responseText\<close>, the trimmed text of that completion. It is also given \<open>JSON_parse\<close>, which
  gives for a text either the error \<open>JSON.parse\<close> throws or the \<open>translations\<close> property
  of the parsed object: absent, or a list of entries, an entry being null (or anything
  else without the properties) or an object of the shape the prompt asks for, whose
  \<open>issues\<close> and \<open>suggested_fix\<close> may be missing. The prompt is not modelled.

  The array \<open>issues\<close> of the source is declared outside the \<open>try\<close> block and returned
  after it, so the loop over the entries returns the issues pushed so far together with
  the error that ended it, if any. Reading \<open>issues.join\<close> on an entry without \<open>issues\<close>
  throws a \<open>TypeError\<close>.
\<close>

record validation =
  index :: int
  has_issues :: bool
  issues :: "string list option"
  suggested_fix :: "string option"

definition dedup_problems :: "ValidationProblem list \<Rightarrow> error + ValidationProblem list" where
  "dedup_problems ps =
     (case those (map JSON_parse_problem (Set_values (map JSON_stringify_problem ps))) of
        None \<Rightarrow> Inl (Error (Some ''Unexpected token in JSON''))
      | Some qs \<Rightarrow> Inr qs)"

definition TypeError_join :: error where
  "TypeError_join =
     Error (Some (''Cannot read properties of undefined (reading '' @ [CHR 0x27] @ ''join''
                  @ [CHR 0x27] @ '')''))"

definition collect_problems :: "Translation \<Rightarrow> validation \<Rightarrow> error + ValidationProblem list" where
  "collect_problems translation v =
     (let placeholderProblems =
            checkPlaceholderConsistency (msgid translation) (msgstr translation);
          problems0 = (if length placeholderProblems > 0 then [] @ placeholderProblems else [])
      in if has_issues v \<and> truthy (suggested_fix v) \<and> suggested_fix v \<noteq> Some (msgstr translation)
         then (case issues v of
                 None \<Rightarrow> Inl TypeError_join
               | Some lines \<Rightarrow>
                   Inr (problems0 @ [\<lparr>type = linguistic_review, description = join [CHR 0x0A] lines\<rparr>]))
         else Inr problems0)"

fun for_validations ::
  "Translation list \<Rightarrow> validation option list \<Rightarrow> TranslationIssue list
     \<Rightarrow> TranslationIssue list \<times> error option" where
  "for_validations ts [] acc = (acc, None)"
| "for_validations ts (None # vs) acc = for_validations ts vs acc"
| "for_validations ts (Some v # vs) acc =
     (case at_index ts (index v - 1) of
        None \<Rightarrow> for_validations ts vs acc
      | Some translation \<Rightarrow>
          (case collect_problems translation v of
             Inl e \<Rightarrow> (acc, Some e)
           | Inr ps \<Rightarrow>
               if length ps > 0 then
                 (case dedup_problems ps of
                    Inl e \<Rightarrow> (acc, Some e)
                  | Inr qs \<Rightarrow>
                      for_validations ts vs
                        (acc @ [\<lparr>msgid = msgid translation, msgstr = msgstr translation,
                                 problems = qs, suggestedFix = suggested_fix v\<rparr>]))
               else for_validations ts vs acc))"

definition try_validation ::
  "(string \<Rightarrow> error + validation option list option) \<Rightarrow> error + string \<Rightarrow> Translation list
     \<Rightarrow> TranslationIssue list \<times> error option" where
  "try_validation JSON_parse response ts =
     (case response of
        Inl e \<Rightarrow> ([], Some e)
      | Inr responseText \<Rightarrow>
          if \<not> startsWith responseText ''{'' then
            ([], Some (Error (Some ''Response is not in JSON format'')))
          else
            (case JSON_parse responseText of
               Inl e \<Rightarrow> ([], Some e)
             | Inr None \<Rightarrow> ([], Some (Error (Some ''result.translations is not iterable'')))
             | Inr (Some validations) \<Rightarrow> for_validations ts validations []))"

definition message_includes :: "error \<Rightarrow> string \<Rightarrow> bool" where
  "message_includes e sub = (case message e of None \<Rightarrow> False | Some m \<Rightarrow> str_includes m sub)"

definition validateBatch ::
  "(string \<Rightarrow> error + validation option list option) \<Rightarrow> error + string \<Rightarrow> Translation list
     \<Rightarrow> error + TranslationIssue list" where
  "validateBatch JSON_parse response ts =
     (case try_validation JSON_parse response ts of
        (acc, None) \<Rightarrow> Inr acc
      | (acc, Some e) \<Rightarrow>
          if message_includes e ''model'' \<and> message_includes e ''not found''
          then Inl e else Inr acc)"

section \<open>The file validator (validatePoFile)\<close>

text \<open>
  \<open>poData\<close> is what reading and parsing the file came to: an error, which
  \<open>validatePoFile\<close> throws again, or the items, each with its \<open>msgid\<close> and its array
  \<open>msgstr\<close>. \<open>generate n\<close> is the outcome of the model call for batch number \<open>n\<close>.
  \<open>batchSize\<close> is a number, 10 when the caller passes none.

  The partition loop \<open>for (let i = 0; i < length; i += batchSize)\<close> need not reach its
  exit, so it is a partial function: \<open>None\<close> is a run that goes round the loop for ever,
  and \<open>validatePoFile\<close> is \<open>None\<close> then. Every round pushes one more batch, so on an
  engine such a run ends when the heap is exhausted, and there is no result either.
  \<open>find\<close> gives the first issue with the pair; the index stands for the reference
  to it, and updating the list at that index for mutating it. An issue a batch returned
  is never the object \<open>find\<close> finds for it, so no aliasing is lost. The boolean beside
  the issues is \<open>aiValidationSuccessful\<close>, which only the log shows.
\<close>

datatype Item = Item (item_msgid: string) (item_msgstr: "string list")

definition first_msgstr :: "Item \<Rightarrow> string option" where
  "first_msgstr item = (case item_msgstr item of [] \<Rightarrow> None | s # _ \<Rightarrow> Some s)"

definition validTranslations :: "Item list \<Rightarrow> Translation list" where
  "validTranslations items =
     map (\<lambda>item. \<lparr>msgid = item_msgid item, msgstr = js_or (first_msgstr item) []\<rparr>)
         (filter (\<lambda>item. truthy (first_msgstr item)) items)"

definition generic_fix :: string where
  "generic_fix = ''Ensure all placeholders are present in translation''"

fun technical_validation :: "Translation list \<Rightarrow> TranslationIssue list \<Rightarrow> TranslationIssue list" where
  "technical_validation [] allIssues = allIssues"
| "technical_validation (translation # rest) allIssues =
     (let technicalProblems =
            checkPlaceholderConsistency (msgid translation) (msgstr translation)
      in if length technicalProblems > 0
         then technical_validation rest
                (allIssues @ [\<lparr>msgid = msgid translation, msgstr = msgstr translation,
                               problems = technicalProblems, suggestedFix = Some generic_fix\<rparr>])
         else technical_validation rest allIssues)"

partial_function (option) partition_loop ::
  "Translation list \<Rightarrow> number \<Rightarrow> number \<Rightarrow> Translation list list
     \<Rightarrow> Translation list list option" where
  "partition_loop valid batchSize i batches =
     (if less_than_length i (length valid)
      then partition_loop valid batchSize (js_add i batchSize)
             (batches @ [slice valid i (js_add i batchSize)])
      else Some batches)"

declare partition_loop.simps [code]

fun find_issue :: "TranslationIssue list \<Rightarrow> TranslationIssue \<Rightarrow> nat option" where
  "find_issue [] batchIssue = None"
| "find_issue (issue # rest) batchIssue =
     (if msgid issue = msgid batchIssue \<and> msgstr issue = msgstr batchIssue then Some 0
      else map_option Suc (find_issue rest batchIssue))"

definition merge_issue :: "TranslationIssue list \<Rightarrow> TranslationIssue \<Rightarrow> TranslationIssue list" where
  "merge_issue allIssues batchIssue =
     (case find_issue allIssues batchIssue of
        Some k \<Rightarrow>
          (let existingIssue = allIssues ! k;
               pushed = existingIssue\<lparr>problems := problems existingIssue @ problems batchIssue\<rparr>
           in allIssues[k :=
                (if suggestedFix batchIssue \<noteq> Some generic_fix
                 then pushed\<lparr>suggestedFix := suggestedFix batchIssue\<rparr>
                 else pushed)])
      | None \<Rightarrow> allIssues @ [batchIssue])"

fun batch_pass ::
  "(string \<Rightarrow> error + validation option list option) \<Rightarrow> (nat \<Rightarrow> error + string)
     \<Rightarrow> nat \<Rightarrow> Translation list list \<Rightarrow> TranslationIssue list \<Rightarrow> TranslationIssue list \<times> bool" where
  "batch_pass JSON_parse generate n [] allIssues = (allIssues, True)"
| "batch_pass JSON_parse generate n (batch # rest) allIssues =
     (case validateBatch JSON_parse (generate n) batch of
        Inl e \<Rightarrow> (allIssues, False)
      | Inr batchIssues \<Rightarrow>
          batch_pass JSON_parse generate (Suc n) rest (foldl merge_issue allIssues batchIssues))"

definition validatePoFile ::
  "(string \<Rightarrow> error + validation option list option) \<Rightarrow> (nat \<Rightarrow> error + string)
     \<Rightarrow> error + Item list \<Rightarrow> number option \<Rightarrow> (error + TranslationIssue list) option" where
  "validatePoFile JSON_parse generate poData batchSize' =
     (case poData of
        Inl fileError \<Rightarrow> Some (Inl fileError)
      | Inr items \<Rightarrow>
          (let batchSize = (case batchSize' of None \<Rightarrow> Finite 10 | Some n \<Rightarrow> n);
               valid = validTranslations items;
               allIssues = technical_validation valid []
           in case partition_loop valid batchSize (Finite 0) [] of
                None \<Rightarrow> None
              | Some batches \<Rightarrow>
                  Some (Inr (fst (batch_pass JSON_parse generate 0 batches allIssues)))))"

section \<open>Notions the statements use\<close>

text \<open>An occurrence of a placeholder token: a percent sign directly followed by one of
  the four conversion letters.\<close>

definition is_placeholder_at :: "string \<Rightarrow> nat \<Rightarrow> bool" where
  "is_placeholder_at s i =
     (Suc i < length s \<and> s ! i = CHR ''%'' \<and> s ! Suc i \<in> set ''sdfg'')"

definition placeholder_positions :: "string \<Rightarrow> nat list" where
  "placeholder_positions s = filter (is_placeholder_at s) [0..<length s]"

definition token_at :: "string \<Rightarrow> nat \<Rightarrow> string" where
  "token_at s i = [s ! i, s ! Suc i]"

text \<open>Deduplication by equality that keeps, of equal elements, the first: the elements at
  the positions where the element has not occurred before.\<close>

definition first_occurrences :: "'a list \<Rightarrow> 'a list" where
  "first_occurrences xs =
     map (\<lambda>i. xs ! i) (filter (\<lambda>i. xs ! i \<notin> set (take i xs)) [0..<length xs])"

text \<open>The problems of a response entry for the batch pair it points to, in the words of
  the specification: the placeholder problems of the pair, then one linguistic problem when
  the entry has issues and suggests a fix that differs from the translation.\<close>

definition suggests_other_fix :: "Translation \<Rightarrow> validation \<Rightarrow> bool" where
  "suggests_other_fix t v =
     (has_issues v \<and> truthy (suggested_fix v) \<and> suggested_fix v \<noteq> Some (msgstr t))"

definition expected_problems :: "Translation \<Rightarrow> validation \<Rightarrow> ValidationProblem list" where
  "expected_problems t v =
     checkPlaceholderConsistency (msgid t) (msgstr t) @
     (if suggests_other_fix t v
      then [\<lparr>type = linguistic_review,
             description = join [CHR 0x0A] (case issues v of None \<Rightarrow> [] | Some lines \<Rightarrow> lines)\<rparr>]
      else [])"

definition expected_issue :: "Translation list \<Rightarrow> validation option \<Rightarrow> TranslationIssue option" where
  "expected_issue ts entry =
     (case entry of
        None \<Rightarrow> None
      | Some v \<Rightarrow>
          (case at_index ts (index v - 1) of
             None \<Rightarrow> None
           | Some t \<Rightarrow>
               if expected_problems t v = [] then None
               else Some \<lparr>msgid = msgid t, msgstr = msgstr t,
                           problems = first_occurrences (expected_problems t v),
                           suggestedFix = suggested_fix v\<rparr>))"

text \<open>A response entry whose processing raises: it points into the batch, has issues and
  suggests another fix, but carries no \<open>issues\<close> list to join.\<close>

definition entry_raises :: "Translation list \<Rightarrow> validation option \<Rightarrow> bool" where
  "entry_raises ts entry =
     (case entry of
        None \<Rightarrow> False
      | Some v \<Rightarrow>
          (case at_index ts (index v - 1) of
             None \<Rightarrow> False
           | Some t \<Rightarrow> suggests_other_fix t v \<and> issues v = None))"

definition model_not_found :: "error \<Rightarrow> bool" where
  "model_not_found e = (message_includes e ''model'' \<and> message_includes e ''not found'')"

text \<open>An issue of the file \<open>valid\<close>: its pair is the pair of a kept entry, and its problems
  are placeholder or linguistic ones.\<close>

definition issue_of :: "Translation list \<Rightarrow> TranslationIssue \<Rightarrow> bool" where
  "issue_of valid iss =
     ((\<exists>t \<in> set valid. msgid iss = msgid t \<and> msgstr iss = msgstr t)
      \<and> (\<forall>p \<in> set (problems iss). type p = placeholder_mismatch \<or> type p = linguistic_review))"

text \<open>A later issue list keeps an earlier one: the earlier issues are still there, at their
  positions, with their pairs, and with their problems as the first problems.\<close>

definition keeps :: "TranslationIssue list \<Rightarrow> TranslationIssue list \<Rightarrow> bool" where
  "keeps old new =
     (length old \<le> length new
      \<and> (\<forall>i < length old.
            msgid (new ! i) = msgid (old ! i) \<and> msgstr (new ! i) = msgstr (old ! i)
            \<and> prefix (problems (old ! i)) (problems (new ! i))))"

definition kept :: "Item \<Rightarrow> bool" where
  "kept item = (case item_msgstr item of [] \<Rightarrow> False | s # _ \<Rightarrow> s \<noteq> [])"

text \<open>The counter and the batches of the partition loop after \<open>n\<close> rounds, for a run that
  goes through \<open>n\<close> rounds at least.\<close>

fun loop_state :: "Translation list \<Rightarrow> number \<Rightarrow> nat \<Rightarrow> number \<times> Translation list list" where
  "loop_state valid batchSize 0 = (Finite 0, [])"
| "loop_state valid batchSize (Suc n) =
     (case loop_state valid batchSize n of
        (i, batches) \<Rightarrow>
          (js_add i batchSize, batches @ [slice valid i (js_add i batchSize)]))"

text \<open>The numbers for which \<open>batchSize <= 0\<close> holds.\<close>

fun at_most_zero :: "number \<Rightarrow> bool" where
  "at_most_zero (Finite q) = (q \<le> 0)"
| "at_most_zero NegInfinity = True"
| "at_most_zero NaN = False"
| "at_most_zero PosInfinity = False"

section \<open>JSON texts can be read back\<close>

lemma hex_value_hex_digit: "n < 16 \<Longrightarrow> hex_value (hex_digit n) = Some n"
proof -
  have "\<forall>k \<in> set [0..<16]. hex_value (hex_digit k) = Some k"
    by (simp add: upt_rec hex_value_def hex_digit_def)
  then show "n < 16 \<Longrightarrow> hex_value (hex_digit n) = Some n" by simp
qed

lemma hex_value_zero: "hex_value (CHR ''0'') = Some 0"
  by (simp add: hex_value_def)

lemma unicode_escape_control:
  assumes "(of_char c :: nat) < 32"
  shows "unicode_escape (CHR ''0'') (CHR ''0'')
           (hex_digit (of_char c div 16)) (hex_digit (of_char c mod 16)) = Some c"
proof -
  have a: "(of_char c :: nat) div 16 < 16" using assms by simp
  have b: "(of_char c :: nat) mod 16 < 16" by simp
  have c: "(of_char c :: nat) < 128" using assms by simp
  show ?thesis
    using c
    by (simp add: unicode_escape_def hex_value_zero hex_value_hex_digit[OF a] hex_value_hex_digit[OF b])
qed

lemma parse_chars_quote_char:
  "parse_chars (quote_char c @ r) = map_option (apfst ((#) c)) (parse_chars r)"
proof (cases "(of_char c :: nat) < 32")
  case True
  show ?thesis
  proof (cases "c \<in> set [CHR 0x08, CHR 0x0C, CHR 0x0A, CHR 0x0D, CHR 0x09]")
    case True
    then show ?thesis
      by (auto simp: quote_char_def simple_escape_def)
  next
    case False
    have ne: "c \<noteq> dquote" "c \<noteq> backslash" using True by auto
    have "quote_char c = [backslash, CHR ''u'', CHR ''0'', CHR ''0'',
              hex_digit (of_char c div 16), hex_digit (of_char c mod 16)]"
      using False ne True by (simp add: quote_char_def)
    then show ?thesis
      by (simp add: unicode_escape_control[OF True])
  qed
next
  case False
  then show ?thesis
    by (auto simp: quote_char_def simple_escape_def)
qed

lemma parse_chars_quoted:
  "parse_chars (concat (map quote_char s) @ dquote # r) = Some (s, r)"
  by (induction s) (simp_all add: parse_chars_quote_char del: parse_chars.simps(2), simp)

lemma parse_string_JSON_quote: "parse_string (JSON_quote s @ r) = Some (s, r)"
  by (simp add: parse_string_def JSON_quote_def parse_chars_quoted del: parse_chars.simps)

lemma JSON_quote_prefix_free:
  assumes "JSON_quote a @ r = JSON_quote b @ r'"
  shows "a = b \<and> r = r'"
proof -
  have "parse_string (JSON_quote a @ r) = parse_string (JSON_quote b @ r')"
    using assms by simp
  then show ?thesis by (simp add: parse_string_JSON_quote)
qed

lemma join_Cons: "join sep (x # xs) = x @ (if xs = [] then [] else sep @ join sep xs)"
  by (cases xs) simp_all

lemma join_quoted_inj:
  "join '','' (map JSON_quote xs) @ '']'' = join '','' (map JSON_quote ys) @ '']'' \<Longrightarrow> xs = ys"
proof (induction xs arbitrary: ys)
  case Nil
  then show ?case
    by (cases ys) (auto simp: join_Cons JSON_quote_def)
next
  case (Cons x xs)
  show ?case
  proof (cases ys)
    case Nil
    with Cons.prems show ?thesis by (auto simp: join_Cons JSON_quote_def)
  next
    case (Cons y ys')
    let ?rx = "(if xs = [] then [] else '','' @ join '','' (map JSON_quote xs)) @ '']''"
    let ?ry = "(if ys' = [] then [] else '','' @ join '','' (map JSON_quote ys')) @ '']''"
    have "JSON_quote x @ ?rx = JSON_quote y @ ?ry"
      using Cons.prems Cons by (simp add: join_Cons)
    then have xy: "x = y" and r: "?rx = ?ry"
      using JSON_quote_prefix_free by blast+
    have "xs = ys'"
    proof (cases "xs = []")
      case True
      with r show ?thesis by (auto split: if_splits)
    next
      case False
      with r have "ys' \<noteq> []" by (auto split: if_splits)
      with r False have "join '','' (map JSON_quote xs) @ '']'' = join '','' (map JSON_quote ys') @ '']''"
        by simp
      then show ?thesis by (rule Cons.IH)
    qed
    with xy Cons show ?thesis by simp
  qed
qed

lemma JSON_stringify_strings_inj:
  "JSON_stringify_strings xs = JSON_stringify_strings ys \<longleftrightarrow> xs = ys"
proof
  assume "JSON_stringify_strings xs = JSON_stringify_strings ys"
  then have "join '','' (map JSON_quote xs) @ '']'' = join '','' (map JSON_quote ys) @ '']''"
    by (simp add: JSON_stringify_strings_def)
  then show "xs = ys" by (rule join_quoted_inj)
qed simp

lemma expect_append: "expect p (p @ r) = Some r"
  by (induction p) simp_all

lemma type_of_name_type_name: "type_of_name (type_name t) = Some t"
  by (cases t) (simp_all add: type_of_name_def)

lemma JSON_parse_stringify_problem: "JSON_parse_problem (JSON_stringify_problem p) = Some p"
proof -
  have "JSON_stringify_problem p = (''{'' @ JSON_quote ''type'' @ '':'') @ (JSON_quote (type_name (type p)) @
      (('','' @ JSON_quote ''description'' @ '':'') @ (JSON_quote (description p) @ ''}'')))"
    by (simp add: JSON_stringify_problem_def)
  then show ?thesis
    unfolding JSON_parse_problem_def
    by (simp only: expect_append parse_string_JSON_quote type_of_name_type_name bind.bind_lunit prod.case)
       simp
qed

section \<open>Placeholder extraction\<close>

lemma is_placeholder_at_Suc: "is_placeholder_at (c # s) (Suc i) = is_placeholder_at s i"
  by (simp add: is_placeholder_at_def)

lemma placeholder_positions_Cons:
  "placeholder_positions (c # s) =
     (if is_placeholder_at (c # s) 0 then [0] else []) @ map Suc (placeholder_positions s)"
proof -
  have "[0..<length (c # s)] = 0 # map Suc [0..<length s]"
    by (simp add: upt_conv_Cons map_Suc_upt del: upt_Suc)
  then show ?thesis
    by (simp add: placeholder_positions_def filter_map comp_def is_placeholder_at_Suc)
qed

lemma token_at_Suc: "token_at (c # s) (Suc i) = token_at s i"
  by (simp add: token_at_def)

lemma not_placeholder_after:
  "d \<in> set ''sdfg'' \<Longrightarrow> \<not> is_placeholder_at (d # cs) 0"
  by (auto simp: is_placeholder_at_def)

lemma extract_positions:
  "extractPlaceholders s = map (token_at s) (placeholder_positions s)"
proof (induction s rule: extractPlaceholders.induct)
  case (1 c d cs)
  show ?case
  proof (cases "c = CHR ''%'' \<and> d \<in> set ''sdfg''")
    case True
    then have p0: "is_placeholder_at (c # d # cs) 0"
      by (simp add: is_placeholder_at_def)
    from True have p1: "\<not> is_placeholder_at (d # cs) 0"
      using not_placeholder_after by blast
    have "placeholder_positions (c # d # cs) = 0 # map Suc (map Suc (placeholder_positions cs))"
      using p0 p1 by (simp add: placeholder_positions_Cons)
    moreover have "extractPlaceholders (c # d # cs) = [c, d] # extractPlaceholders cs"
      using True by simp
    ultimately show ?thesis
      using 1(1)[OF True] by (simp add: token_at_def comp_def)
  next
    case False
    then have p0: "\<not> is_placeholder_at (c # d # cs) 0"
      by (auto simp add: is_placeholder_at_def)
    have "placeholder_positions (c # d # cs) = map Suc (placeholder_positions (d # cs))"
      using p0 by (simp add: placeholder_positions_Cons)
    moreover have "extractPlaceholders (c # d # cs) = extractPlaceholders (d # cs)"
      by (simp only: extractPlaceholders.simps False if_False)
    ultimately show ?thesis
      using 1(2)[OF False] by (simp add: comp_def token_at_Suc del: extractPlaceholders.simps)
  qed
qed (simp_all add: placeholder_positions_def is_placeholder_at_def)

lemma extract_tokens_subset:
  "set (extractPlaceholders s) \<subseteq> {''%s'', ''%d'', ''%f'', ''%g''}"
  by (induction s rule: extractPlaceholders.induct) auto

lemma extract_token_append:
  "t \<in> {''%s'', ''%d'', ''%f'', ''%g''} \<Longrightarrow> extractPlaceholders (t @ r) = t # extractPlaceholders r"
  by auto

lemma extract_concat_tokens:
  "set ts \<subseteq> {''%s'', ''%d'', ''%f'', ''%g''} \<Longrightarrow> extractPlaceholders (concat ts) = ts"
proof (induction ts)
  case Nil
  then show ?case by simp
next
  case (Cons t ts)
  then have "t \<in> {''%s'', ''%d'', ''%f'', ''%g''}" by simp
  then have "extractPlaceholders (t @ concat ts) = t # extractPlaceholders (concat ts)"
    by (rule extract_token_append)
  with Cons show ?case by simp
qed

lemma extract_idem: "extractPlaceholders (concat (extractPlaceholders s)) = extractPlaceholders s"
  by (rule extract_concat_tokens) (rule extract_tokens_subset)

lemma extract_subseq: "subseq (concat (extractPlaceholders s)) s"
  by (induction s rule: extractPlaceholders.induct) (auto intro: subseq_Cons')

lemma placeholder_positions_increasing: "sorted_wrt (<) (placeholder_positions s)"
  unfolding placeholder_positions_def by (rule sorted_wrt_filter) simp

lemma positions_nil_iff:
  "placeholder_positions s = [] \<longleftrightarrow> (\<forall>i. \<not> is_placeholder_at s i)"
  by (auto simp: placeholder_positions_def filter_empty_conv is_placeholder_at_def)

lemma extract_skip: "c \<noteq> CHR ''%'' \<Longrightarrow> extractPlaceholders (c # r) = extractPlaceholders r"
  by (cases r) simp_all

lemma extract_skip_all: "CHR ''%'' \<notin> set m \<Longrightarrow> extractPlaceholders (m @ r) = extractPlaceholders r"
proof (induction m)
  case Nil
  then show ?case by simp
next
  case (Cons x m)
  then have "x \<noteq> CHR ''%''" by auto
  then have "extractPlaceholders (x # (m @ r)) = extractPlaceholders (m @ r)"
    by (rule extract_skip)
  with Cons show ?case by (simp del: extractPlaceholders.simps)
qed

lemma extract_append:
  "\<not> (a \<noteq> [] \<and> last a = CHR ''%'' \<and> b \<noteq> [] \<and> hd b \<in> set ''sdfg'')
   \<Longrightarrow> extractPlaceholders (a @ b) = extractPlaceholders a @ extractPlaceholders b"
proof (induction a rule: extractPlaceholders.induct)
  case (1 c d cs)
  show ?case
  proof (cases "c = CHR ''%'' \<and> d \<in> set ''sdfg''")
    case True
    have "\<not> (cs \<noteq> [] \<and> last cs = CHR ''%'' \<and> b \<noteq> [] \<and> hd b \<in> set ''sdfg'')"
      using 1(3) by auto
    from 1(1)[OF True this] True show ?thesis by simp
  next
    case False
    have "\<not> (d # cs \<noteq> [] \<and> last (d # cs) = CHR ''%'' \<and> b \<noteq> [] \<and> hd b \<in> set ''sdfg'')"
      using 1(3) by auto
    from 1(2)[OF False this] have ih: "extractPlaceholders ((d # cs) @ b) = extractPlaceholders (d # cs) @ extractPlaceholders b" .
    have l: "extractPlaceholders ((c # d # cs) @ b) = extractPlaceholders ((d # cs) @ b)"
      by (simp only: append_Cons extractPlaceholders.simps False if_False)
    have r: "extractPlaceholders (c # d # cs) = extractPlaceholders (d # cs)"
      by (simp only: extractPlaceholders.simps False if_False)
    show ?thesis unfolding l r by (rule ih)
  qed
qed (simp, cases b, auto)

lemma extract_modified_in_context:
  assumes "mods \<noteq> []" "CHR ''%'' \<notin> set mods" "hd mods \<notin> set ''sdfg''" "c \<noteq> CHR ''%''"
  shows "extractPlaceholders (a @ CHR ''%'' # mods @ c # b) = extractPlaceholders a @ extractPlaceholders b"
proof -
  have 1: "extractPlaceholders (a @ (CHR ''%'' # mods @ c # b)) =
           extractPlaceholders a @ extractPlaceholders (CHR ''%'' # mods @ c # b)"
    by (rule extract_append) simp
  have "extractPlaceholders ([CHR ''%''] @ (mods @ c # b)) =
        extractPlaceholders [CHR ''%''] @ extractPlaceholders (mods @ c # b)"
    by (rule extract_append) (use assms in \<open>cases mods; simp\<close>)
  then have 2: "extractPlaceholders (CHR ''%'' # mods @ c # b) = extractPlaceholders (mods @ c # b)"
    by simp
  have 3: "extractPlaceholders (mods @ c # b) = extractPlaceholders (c # b)"
    using assms(2) by (rule extract_skip_all)
  have 4: "extractPlaceholders (c # b) = extractPlaceholders b"
    using assms(4) by (rule extract_skip)
  show ?thesis using 1 2 3 4 by (simp del: extractPlaceholders.simps)
qed

lemma extract_nil_iff: "extractPlaceholders s = [] \<longleftrightarrow> (\<forall>i. \<not> is_placeholder_at s i)"
  by (simp add: extract_positions positions_nil_iff del: extractPlaceholders.simps)

lemma set_placeholder_positions: "set (placeholder_positions s) = {i. is_placeholder_at s i}"
  by (auto simp: placeholder_positions_def is_placeholder_at_def)

text \<open>
  Claim C7. The Placeholder Extractor returns, left to right, the occurrences of exactly
  the two-character tokens \<open>%s\<close>, \<open>%d\<close>, \<open>%f\<close>, \<open>%g\<close>: the result lists the
  token at each position where a percent sign is directly followed by one of the four
  letters, in increasing order of position, and nothing else. A token with a modifier
  between the percent sign and the conversion letter (\<open>%1$s\<close>, \<open>%5d\<close>, \<open>%.2f\<close>)
  contributes nothing, in any context, neither itself nor a bare token. The extractor is
  total, and the result is empty exactly when no token occurs.
\<close>

theorem extractPlaceholders_tokens:
  "extractPlaceholders s = map (token_at s) (placeholder_positions s)
   \<and> sorted_wrt (<) (placeholder_positions s)
   \<and> set (placeholder_positions s) = {i. is_placeholder_at s i}
   \<and> set (extractPlaceholders s) \<subseteq> {''%s'', ''%d'', ''%f'', ''%g''}
   \<and> (extractPlaceholders s = [] \<longleftrightarrow> (\<forall>i. \<not> is_placeholder_at s i))
   \<and> (mods \<noteq> [] \<and> CHR ''%'' \<notin> set mods \<and> hd mods \<notin> set ''sdfg'' \<and> c \<noteq> CHR ''%'' \<longrightarrow>
        extractPlaceholders (a @ CHR ''%'' # mods @ c # b)
          = extractPlaceholders a @ extractPlaceholders b)"
  using extract_positions placeholder_positions_increasing set_placeholder_positions
    extract_tokens_subset extract_nil_iff extract_modified_in_context
  by blast

theorem extractPlaceholders_tokens_witness:
  "map (token_at ''Hi %s, 100%!'') (placeholder_positions ''Hi %s, 100%!'') = [''%s'']
   \<and> extractPlaceholders ''%d of %1$s and %g'' = [''%d'', ''%g'']"
proof -
  have "extractPlaceholders ''Hi %s, 100%!'' = [''%s'']" by simp
  moreover have "extractPlaceholders (''%d of '' @ CHR ''%'' # ''1$'' @ CHR ''s'' # '' and %g'')
     = extractPlaceholders ''%d of '' @ extractPlaceholders '' and %g''"
    using extractPlaceholders_tokens[of "''Hi %s, 100%!''" "''1$''" "CHR ''s''" "''%d of ''" "'' and %g''"]
    by simp
  moreover have "extractPlaceholders ''%d of '' @ extractPlaceholders '' and %g'' = [''%d'', ''%g'']"
    by simp
  ultimately show ?thesis
    using extractPlaceholders_tokens[of "''Hi %s, 100%!''" "''1$''" "CHR ''s''" "''%d of ''" "'' and %g''"]
    by (simp del: extractPlaceholders.simps)
qed

text \<open>
  Claim C8. Placeholder extraction is idempotent and order-preserving: extracting from the
  concatenation of the extracted tokens gives the same list again; the concatenated tokens
  are a subsequence of the string; and the \<open>k\<close>-th extracted token is the token at the
  \<open>k\<close>-th occurrence position, the positions being strictly increasing.
\<close>

theorem extractPlaceholders_idempotent:
  "extractPlaceholders (concat (extractPlaceholders s)) = extractPlaceholders s
   \<and> subseq (concat (extractPlaceholders s)) s
   \<and> length (extractPlaceholders s) = length (placeholder_positions s)
   \<and> (\<forall>k. k < length (extractPlaceholders s) \<longrightarrow>
         extractPlaceholders s ! k = token_at s (placeholder_positions s ! k)
         \<and> (\<forall>j. j < k \<longrightarrow> placeholder_positions s ! j < placeholder_positions s ! k))"
proof -
  have len: "length (extractPlaceholders s) = length (placeholder_positions s)"
    by (simp add: extract_positions del: extractPlaceholders.simps)
  have "extractPlaceholders s ! k = token_at s (placeholder_positions s ! k)
         \<and> (\<forall>j. j < k \<longrightarrow> placeholder_positions s ! j < placeholder_positions s ! k)"
    if "k < length (extractPlaceholders s)" for k
  proof -
    from that len have k: "k < length (placeholder_positions s)" by simp
    then have "extractPlaceholders s ! k = token_at s (placeholder_positions s ! k)"
      by (simp add: extract_positions del: extractPlaceholders.simps)
    moreover have "placeholder_positions s ! j < placeholder_positions s ! k" if "j < k" for j
      using placeholder_positions_increasing that k sorted_wrt_nth_less by blast
    ultimately show ?thesis by blast
  qed
  with len extract_idem extract_subseq show ?thesis by blast
qed

theorem extractPlaceholders_idempotent_witness:
  "extractPlaceholders (concat [''%s'', ''%d'']) = [''%s'', ''%d'']
   \<and> extractPlaceholders ''a %s b %d'' ! 1 = token_at ''a %s b %d'' 7"
proof -
  have e: "extractPlaceholders ''a %s b %d'' = [''%s'', ''%d'']" by simp
  have p: "placeholder_positions ''a %s b %d'' = [2, 7]"
    by (simp add: placeholder_positions_def is_placeholder_at_def upt_rec)
  from extractPlaceholders_idempotent[of "''a %s b %d''"]
  have "extractPlaceholders (concat (extractPlaceholders ''a %s b %d'')) = extractPlaceholders ''a %s b %d''"
    and "1 < length (extractPlaceholders ''a %s b %d'') \<longrightarrow>
         extractPlaceholders ''a %s b %d'' ! 1 = token_at ''a %s b %d'' (placeholder_positions ''a %s b %d'' ! 1)"
    by blast+
  then show ?thesis unfolding e p by simp
qed

section \<open>The technical check\<close>

lemma checkPlaceholderConsistency_eq:
  "checkPlaceholderConsistency a b =
     (if sort (extractPlaceholders a) = sort (extractPlaceholders b) then []
      else [\<lparr>type = placeholder_mismatch,
             description = ''Missing placeholder(s): '' @
               join '', '' (sort (filter (\<lambda>p. p \<notin> set (extractPlaceholders b)) (extractPlaceholders a)))\<rparr>])"
  by (simp add: checkPlaceholderConsistency_def Let_def JSON_stringify_strings_inj filter_sort
           del: extractPlaceholders.simps)

lemma check_types: "p \<in> set (checkPlaceholderConsistency a b) \<Longrightarrow> type p = placeholder_mismatch"
  by (auto simp: checkPlaceholderConsistency_eq simp del: extractPlaceholders.simps split: if_splits)

text \<open>
  Claim C1. The Technical Checker returns no problem exactly when the sorted lists of
  extracted placeholders of \<open>msgid\<close> and \<open>msgstr\<close> are equal. When they differ it returns
  exactly one \<open>placeholder_mismatch\<close> problem, whose description is the fixed prefix
  followed by the comma-separated placeholders of the original that do not occur (by list
  membership) in the translation: each such occurrence is listed once, in sorted order,
  and none is listed when every placeholder of the original occurs in the translation.
\<close>

theorem checkPlaceholderConsistency_sorted:
  "(checkPlaceholderConsistency a b = [] \<longleftrightarrow>
      sort (extractPlaceholders a) = sort (extractPlaceholders b))
   \<and> (sort (extractPlaceholders a) \<noteq> sort (extractPlaceholders b) \<longrightarrow>
        (\<exists>missing.
           checkPlaceholderConsistency a b =
             [\<lparr>type = placeholder_mismatch,
               description = ''Missing placeholder(s): '' @ join '', '' missing\<rparr>]
           \<and> missing = sort (filter (\<lambda>p. p \<notin> set (extractPlaceholders b)) (extractPlaceholders a))
           \<and> (\<forall>p. count_list missing p =
                  (if p \<in> set (extractPlaceholders b) then 0 else count_list (extractPlaceholders a) p))
           \<and> (set (extractPlaceholders a) \<subseteq> set (extractPlaceholders b) \<longrightarrow> missing = [])))"
proof -
  let ?m = "sort (filter (\<lambda>p. p \<notin> set (extractPlaceholders b)) (extractPlaceholders a))"
  have c: "count_list ?m p =
            (if p \<in> set (extractPlaceholders b) then 0 else count_list (extractPlaceholders a) p)" for p
  proof -
    have "count_list (sort xs) p = count_list xs p" for xs :: "string list"
      by (metis count_list_eq_length_filter filter_sort length_sort)
    moreover have "count_list (filter P xs) p = (if P p then count_list xs p else 0)"
      for P and xs :: "string list"
      by (induction xs) auto
    ultimately show ?thesis by simp
  qed
  have e: "set (extractPlaceholders a) \<subseteq> set (extractPlaceholders b) \<longrightarrow> ?m = []"
  proof
    assume "set (extractPlaceholders a) \<subseteq> set (extractPlaceholders b)"
    then have "filter (\<lambda>p. p \<notin> set (extractPlaceholders b)) (extractPlaceholders a) = []"
      unfolding filter_empty_conv by blast
    then show "?m = []" by (simp del: extractPlaceholders.simps)
  qed
  show ?thesis
    using c e by (simp add: checkPlaceholderConsistency_eq del: extractPlaceholders.simps)
qed

theorem checkPlaceholderConsistency_sorted_witness:
  "checkPlaceholderConsistency ''You have %d courses'' ''Tu esi pabeidzis kursus'' =
     [\<lparr>type = placeholder_mismatch, description = ''Missing placeholder(s): %d''\<rparr>]
   \<and> checkPlaceholderConsistency ''Hi %s %d'' ''Sveiks %d %s %s'' =
     [\<lparr>type = placeholder_mismatch, description = ''Missing placeholder(s): ''\<rparr>]
   \<and> checkPlaceholderConsistency ''%s of %d'' ''%d no %s'' = []"
proof -
  have 1: "sort (extractPlaceholders ''You have %d courses'') \<noteq> sort (extractPlaceholders ''Tu esi pabeidzis kursus'')"
    by simp
  have 2: "sort (extractPlaceholders ''Hi %s %d'') \<noteq> sort (extractPlaceholders ''Sveiks %d %s %s'')"
    by simp
  have 3: "sort (extractPlaceholders ''%s of %d'') = sort (extractPlaceholders ''%d no %s'')"
    by simp
  have 4: "set (extractPlaceholders ''Hi %s %d'') \<subseteq> set (extractPlaceholders ''Sveiks %d %s %s'')"
    by simp
  have 5: "sort (filter (\<lambda>p. p \<notin> set (extractPlaceholders ''Tu esi pabeidzis kursus'')) (extractPlaceholders ''You have %d courses'')) = [''%d'']"
    by simp
  from checkPlaceholderConsistency_sorted[of "''You have %d courses''" "''Tu esi pabeidzis kursus''"] 1 5
  have a: "checkPlaceholderConsistency ''You have %d courses'' ''Tu esi pabeidzis kursus'' =
     [\<lparr>type = placeholder_mismatch, description = ''Missing placeholder(s): %d''\<rparr>]"
    by (auto simp del: extractPlaceholders.simps)
  from checkPlaceholderConsistency_sorted[of "''Hi %s %d''" "''Sveiks %d %s %s''"] 2 4
  have b: "checkPlaceholderConsistency ''Hi %s %d'' ''Sveiks %d %s %s'' =
     [\<lparr>type = placeholder_mismatch, description = ''Missing placeholder(s): ''\<rparr>]"
    by (auto simp del: extractPlaceholders.simps)
  from checkPlaceholderConsistency_sorted[of "''%s of %d''" "''%d no %s''"] 3
  have c: "checkPlaceholderConsistency ''%s of %d'' ''%d no %s'' = []"
    by (simp del: extractPlaceholders.simps)
  from a b c show ?thesis by (simp del: extractPlaceholders.simps)
qed

section \<open>Construction\<close>

text \<open>
  Claim C5. Constructing a \<open>TranslationValidator\<close> fails exactly when the provider is
  none of \<open>ollama\<close>, \<open>anthropic\<close>, \<open>openai\<close>, or it is one of the two hosted providers
  and \<open>apiKey\<close> is absent (undefined or the empty string, which JavaScript's \<open>!\<close>
  treats alike). The error says what is wrong: a missing key of \<open>anthropic\<close> gives
  \<open>Anthropic API key is required\<close>, a missing key of \<open>openai\<close> gives
  \<open>OpenAI API key is required\<close>, and any other provider gives \<open>Unsupported provider:\<close>
  followed by its name. With \<open>ollama\<close> construction always succeeds, \<open>baseUrl\<close>
  defaulting to \<open>http://localhost:11434\<close> and the model name to \<open>llama2\<close>; a hosted
  provider with a key succeeds with that key and its own default model name. The outcome
  is determined by the configuration, the only thing construction reads.
\<close>

theorem TranslationValidator_construction:
  "((\<exists>e. TranslationValidator config = Inl e) \<longleftrightarrow>
      provider config \<notin> {''ollama'', ''anthropic'', ''openai''}
      \<or> (provider config \<in> {''anthropic'', ''openai''} \<and> \<not> truthy (apiKey config)))
   \<and> (provider config = ''anthropic'' \<and> \<not> truthy (apiKey config) \<longrightarrow>
        TranslationValidator config = Inl (Error (Some ''Anthropic API key is required'')))
   \<and> (provider config = ''openai'' \<and> \<not> truthy (apiKey config) \<longrightarrow>
        TranslationValidator config = Inl (Error (Some ''OpenAI API key is required'')))
   \<and> (provider config \<notin> {''ollama'', ''anthropic'', ''openai''} \<longrightarrow>
        TranslationValidator config
          = Inl (Error (Some (''Unsupported provider: '' @ provider config))))
   \<and> (provider config = ''ollama'' \<longrightarrow>
        TranslationValidator config
          = Inr (ChatOllama
                  (if truthy (baseUrl config) then the (baseUrl config)
                   else ''http://localhost:11434'')
                  (if truthy (modelName config) then the (modelName config) else ''llama2'')))
   \<and> (provider config = ''anthropic'' \<and> truthy (apiKey config) \<longrightarrow>
        TranslationValidator config
          = Inr (ChatAnthropic (the (apiKey config))
                  (if truthy (modelName config) then the (modelName config)
                   else ''claude-3-sonnet-20240229'')))
   \<and> (provider config = ''openai'' \<and> truthy (apiKey config) \<longrightarrow>
        TranslationValidator config
          = Inr (ChatOpenAI (the (apiKey config))
                  (if truthy (modelName config) then the (modelName config)
                   else ''gpt-3.5-turbo'')))"
  by (auto simp: TranslationValidator_def initializeModel_def truthy_def js_or_def
        split: option.splits)

theorem TranslationValidator_construction_witness:
  "TranslationValidator \<lparr>provider = ''ollama'', modelName = None, apiKey = None, baseUrl = None\<rparr>
     = Inr (ChatOllama ''http://localhost:11434'' ''llama2'')
   \<and> TranslationValidator
       \<lparr>provider = ''gemini'', modelName = None, apiKey = Some ''k'', baseUrl = None\<rparr>
     = Inl (Error (Some ''Unsupported provider: gemini''))
   \<and> TranslationValidator
       \<lparr>provider = ''anthropic'', modelName = None, apiKey = None, baseUrl = None\<rparr>
     = Inl (Error (Some ''Anthropic API key is required''))
   \<and> TranslationValidator
       \<lparr>provider = ''openai'', modelName = Some ''gpt-4'', apiKey = Some [], baseUrl = None\<rparr>
     = Inl (Error (Some ''OpenAI API key is required''))
   \<and> TranslationValidator
       \<lparr>provider = ''openai'', modelName = None, apiKey = Some ''k'', baseUrl = None\<rparr>
     = Inr (ChatOpenAI ''k'' ''gpt-3.5-turbo'')"
proof -
  let ?ollama = "\<lparr>provider = ''ollama'', modelName = None, apiKey = None, baseUrl = None\<rparr>"
  let ?gemini = "\<lparr>provider = ''gemini'', modelName = None, apiKey = Some ''k'', baseUrl = None\<rparr>"
  let ?anthropic = "\<lparr>provider = ''anthropic'', modelName = None, apiKey = None, baseUrl = None\<rparr>"
  let ?openai = "\<lparr>provider = ''openai'', modelName = Some ''gpt-4'', apiKey = Some [], baseUrl = None\<rparr>"
  let ?keyed = "\<lparr>provider = ''openai'', modelName = None, apiKey = Some ''k'', baseUrl = None\<rparr>"
  have 1: "TranslationValidator ?ollama = Inr (ChatOllama ''http://localhost:11434'' ''llama2'')"
    using TranslationValidator_construction[of ?ollama] by (simp add: truthy_def)
  have 2: "TranslationValidator ?gemini = Inl (Error (Some ''Unsupported provider: gemini''))"
    using TranslationValidator_construction[of ?gemini] by simp
  have 3: "TranslationValidator ?anthropic = Inl (Error (Some ''Anthropic API key is required''))"
    using TranslationValidator_construction[of ?anthropic] by (simp add: truthy_def)
  have 4: "TranslationValidator ?openai = Inl (Error (Some ''OpenAI API key is required''))"
    using TranslationValidator_construction[of ?openai] by (simp add: truthy_def)
  have 5: "TranslationValidator ?keyed = Inr (ChatOpenAI ''k'' ''gpt-3.5-turbo'')"
    using TranslationValidator_construction[of ?keyed] by (simp add: truthy_def)
  from 1 2 3 4 5 show ?thesis by simp
qed

section \<open>Merging batch issues\<close>


lemma find_issue_Some:
  "find_issue xs b = Some k \<Longrightarrow>
     k < length xs \<and> msgid (xs ! k) = msgid b \<and> msgstr (xs ! k) = msgstr b
     \<and> (\<forall>j < k. \<not> (msgid (xs ! j) = msgid b \<and> msgstr (xs ! j) = msgstr b))"
proof (induction xs arbitrary: k)
  case Nil
  then show ?case by simp
next
  case (Cons x xs)
  show ?case
  proof (cases "msgid x = msgid b \<and> msgstr x = msgstr b")
    case True
    with Cons.prems show ?thesis by simp
  next
    case False
    with Cons.prems obtain k' where k': "find_issue xs b = Some k'" "k = Suc k'"
      by auto
    from Cons.IH[OF k'(1)] False k'(2) show ?thesis
      by (auto simp: less_Suc_eq_0_disj)
  qed
qed




section \<open>Partition into batches\<close>

lemma trunc_of_int: "trunc (of_int k) = k"
  by (simp add: trunc_def)

lemma slice_chunk:
  assumes "0 \<le> i" "i < int (length xs)" "1 \<le> b"
  shows "slice xs (Finite (of_int i)) (Finite (of_int (i + b))) = take (nat b) (drop (nat i) xs)"
proof -
  have k: "relative_index (length xs) (Finite (of_int i)) = nat i"
    using assms unfolding relative_index.simps trunc_of_int by simp
  have f: "relative_index (length xs) (Finite (of_int (i + b))) = nat (min (i + b) (int (length xs)))"
    using assms unfolding relative_index.simps trunc_of_int by simp
  have "take (nat (min (i + b) (int (length xs))) - nat i) (drop (nat i) xs)
        = take (nat b) (drop (nat i) xs)"
  proof (cases "i + b \<le> int (length xs)")
    case True
    then have "nat (min (i + b) (int (length xs))) - nat i = nat b"
      using assms by (simp add: min_def)
    then show ?thesis by simp
  next
    case False
    then have "length (drop (nat i) xs) \<le> nat (min (i + b) (int (length xs))) - nat i"
      and "length (drop (nat i) xs) \<le> nat b"
      using assms by (auto simp: min_def)
    then show ?thesis by simp
  qed
  then show ?thesis
    unfolding slice_def Let_def k f .
qed

lemma set_slice: "set (slice xs i j) \<subseteq> set xs"
proof -
  have "set (take n (drop m xs)) \<subseteq> set xs" for n m
    by (meson set_take_subset set_drop_subset subset_trans)
  then show ?thesis by (simp add: slice_def Let_def)
qed

lemma partition_loop_from:
  assumes b: "1 \<le> b"
  shows "0 \<le> i \<Longrightarrow>
    \<exists>new. partition_loop v (Finite (of_int b)) (Finite (of_int i)) acc = Some (acc @ new)
      \<and> concat new = drop (nat i) v
      \<and> (\<forall>j < length new. new ! j = take (nat b) (drop (nat i + j * nat b) v) \<and> new ! j \<noteq> [])"
proof (induction "length v - nat i" arbitrary: i acc rule: less_induct)
  case less
  have "(of_int i :: rat) < of_nat (length v) \<longleftrightarrow> i < int (length v)"
    by (metis of_int_less_iff of_int_of_nat_eq)
  then have cond: "less_than_length (Finite (of_int i)) (length v) \<longleftrightarrow> i < int (length v)"
    by simp
  have add: "js_add (Finite (of_int i)) (Finite (of_int b)) = Finite (of_int (i + b))"
    by simp
  show ?case
  proof (cases "i < int (length v)")
    case False
    then have "partition_loop v (Finite (of_int b)) (Finite (of_int i)) acc = Some acc"
      by (subst partition_loop.simps) (simp only: cond if_False)
    moreover from False less.prems have "drop (nat i) v = []" by simp
    ultimately show ?thesis by simp
  next
    case True
    let ?chunk = "take (nat b) (drop (nat i) v)"
    have step: "partition_loop v (Finite (of_int b)) (Finite (of_int i)) acc
                = partition_loop v (Finite (of_int b)) (Finite (of_int (i + b))) (acc @ [?chunk])"
      using True less.prems b
      by (subst partition_loop.simps) (simp only: cond add if_True slice_chunk)
    have "length v - nat (i + b) < length v - nat i"
      using True less.prems b by linarith
    moreover have "0 \<le> i + b" using less.prems b by simp
    ultimately obtain new where
      new: "partition_loop v (Finite (of_int b)) (Finite (of_int (i + b))) (acc @ [?chunk])
              = Some ((acc @ [?chunk]) @ new)"
      "concat new = drop (nat (i + b)) v"
      "\<forall>j < length new. new ! j = take (nat b) (drop (nat (i + b) + j * nat b) v) \<and> new ! j \<noteq> []"
      using less.hyps by blast
    have nat_add: "nat (i + b) = nat i + nat b" using less.prems b by (simp add: nat_add_distrib)
    have ne: "?chunk \<noteq> []" using True less.prems b by simp
    have 1: "partition_loop v (Finite (of_int b)) (Finite (of_int i)) acc = Some (acc @ (?chunk # new))"
      using step new(1) by simp
    have 2: "concat (?chunk # new) = drop (nat i) v"
      using new(2) by (simp add: nat_add add.commute[of "nat i"] flip: drop_drop)
    have 3: "(?chunk # new) ! j = take (nat b) (drop (nat i + j * nat b) v) \<and> (?chunk # new) ! j \<noteq> []"
      if "j < length (?chunk # new)" for j
    proof (cases j)
      case 0
      then show ?thesis using ne by simp
    next
      case (Suc j')
      with that have "j' < length new" by simp
      with new(3) have n: "new ! j' = take (nat b) (drop (nat (i + b) + j' * nat b) v)"
        and m: "new ! j' \<noteq> []"
        by blast+
      have "nat (i + b) + j' * nat b = nat i + j * nat b"
        using Suc by (simp add: nat_add)
      with n m Suc show ?thesis by simp
    qed
    from 1 2 3 show ?thesis by blast
  qed
qed

lemma at_most_zero_step:
  "at_most_zero b \<Longrightarrow> less_than_length i n \<Longrightarrow> less_than_length (js_add i b) n"
  by (cases i; cases b) auto

lemma partition_loop_diverges:
  assumes "partition_loop v b i acc = Some r"
  shows "\<not> (at_most_zero b \<and> less_than_length i (length v))"
proof (rule partition_loop.raw_induct[where P = "\<lambda>v b i acc r. \<not> (at_most_zero b \<and> less_than_length i (length v))", OF _ assms])
  fix self :: "Translation list \<Rightarrow> number \<Rightarrow> number \<Rightarrow> Translation list list \<Rightarrow> Translation list list option"
  fix v b i acc r
  assume ih: "\<And>v b i acc r. self v b i acc = Some r \<Longrightarrow> \<not> (at_most_zero b \<and> less_than_length i (length v))"
  assume body: "(if less_than_length i (length v)
                 then self v b (js_add i b) (acc @ [slice v i (js_add i b)]) else Some acc) = Some r"
  show "\<not> (at_most_zero b \<and> less_than_length i (length v))"
  proof
    assume a: "at_most_zero b \<and> less_than_length i (length v)"
    with body have "self v b (js_add i b) (acc @ [slice v i (js_add i b)]) = Some r" by simp
    from ih[OF this] a at_most_zero_step[of b i "length v"] show False by blast
  qed
qed

lemma partition_loop_members:
  assumes "partition_loop v b i acc = Some r"
  shows "set (concat r) \<subseteq> set (concat acc) \<union> set v"
proof (rule partition_loop.raw_induct[where P = "\<lambda>v b i acc r. set (concat r) \<subseteq> set (concat acc) \<union> set v", OF _ assms])
  fix self :: "Translation list \<Rightarrow> number \<Rightarrow> number \<Rightarrow> Translation list list \<Rightarrow> Translation list list option"
  fix v b i acc r
  assume ih: "\<And>v b i acc r. self v b i acc = Some r \<Longrightarrow> set (concat r) \<subseteq> set (concat acc) \<union> set v"
  assume body: "(if less_than_length i (length v)
                 then self v b (js_add i b) (acc @ [slice v i (js_add i b)]) else Some acc) = Some r"
  show "set (concat r) \<subseteq> set (concat acc) \<union> set v"
  proof (cases "less_than_length i (length v)")
    case True
    with body have "self v b (js_add i b) (acc @ [slice v i (js_add i b)]) = Some r" by simp
    from ih[OF this]
    have "set (concat r) \<subseteq> set (concat acc) \<union> set (slice v i (js_add i b)) \<union> set v"
      by auto
    with set_slice[of v i "js_add i b"] show ?thesis by blast
  next
    case False
    with body show ?thesis by auto
  qed
qed

lemma loop_state_running:
  assumes "at_most_zero b" "valid \<noteq> []"
  shows "less_than_length (fst (loop_state valid b n)) (length valid)
         \<and> length (snd (loop_state valid b n)) = n"
proof (induction n)
  case 0
  from assms(2) show ?case by simp
next
  case (Suc n)
  obtain i batches where s: "loop_state valid b n = (i, batches)" by (cases "loop_state valid b n")
  with Suc have "less_than_length i (length valid)" "length batches = n" by simp_all
  with assms(1) s show ?case by (simp add: at_most_zero_step)
qed

lemma partition_loop_unroll:
  assumes "\<forall>m < n. less_than_length (fst (loop_state valid b m)) (length valid)"
  shows "partition_loop valid b (Finite 0) []
         = partition_loop valid b (fst (loop_state valid b n)) (snd (loop_state valid b n))"
  using assms
proof (induction n)
  case 0
  show ?case by simp
next
  case (Suc n)
  obtain i batches where s: "loop_state valid b n = (i, batches)" by (cases "loop_state valid b n")
  from Suc.prems have run: "less_than_length i (length valid)" using s by force
  from Suc.prems have "\<forall>m < n. less_than_length (fst (loop_state valid b m)) (length valid)" by simp
  then have "partition_loop valid b (Finite 0) [] = partition_loop valid b i batches"
    using Suc.IH s by simp
  also have "\<dots> = partition_loop valid b (js_add i b) (batches @ [slice valid i (js_add i b)])"
    using run by (subst partition_loop.simps) simp
  finally show ?case using s by simp
qed

section \<open>The batch validator\<close>

lemma set_Set_values_aux:
  "set (foldl (\<lambda>seen x. if x \<in> set seen then seen else seen @ [x]) acc xs) = set acc \<union> set xs"
  by (induction xs arbitrary: acc) auto

lemma set_Set_values: "set (Set_values xs) = set xs"
  by (simp add: Set_values_def set_Set_values_aux)

lemma Set_values_snoc:
  "Set_values (xs @ [x]) = (if x \<in> set xs then Set_values xs else Set_values xs @ [x])"
  using set_Set_values[of xs] by (simp add: Set_values_def)

lemma first_occurrences_snoc:
  "first_occurrences (xs @ [x]) =
     (if x \<in> set xs then first_occurrences xs else first_occurrences xs @ [x])"
proof -
  have a: "filter (\<lambda>i. (xs @ [x]) ! i \<notin> set (take i (xs @ [x]))) [0..<length xs]
           = filter (\<lambda>i. xs ! i \<notin> set (take i xs)) [0..<length xs]"
    by (rule filter_cong) (auto simp: nth_append)
  have b: "map (\<lambda>i. (xs @ [x]) ! i) (filter P [0..<length xs]) = map (\<lambda>i. xs ! i) (filter P [0..<length xs])" for P
    by (rule map_cong) (auto simp: nth_append)
  have c: "[0..<length (xs @ [x])] = [0..<length xs] @ [length xs]" by simp
  show ?thesis
    unfolding first_occurrences_def c filter_append map_append a b by simp
qed

lemma Set_values_first_occurrences: "Set_values xs = first_occurrences xs"
proof (induction xs rule: rev_induct)
  case Nil
  show ?case by (simp add: Set_values_def first_occurrences_def)
next
  case (snoc x xs)
  then show ?case by (simp add: Set_values_snoc first_occurrences_snoc)
qed

lemma set_first_occurrences: "set (first_occurrences xs) = set xs"
  using set_Set_values[of xs] by (simp add: Set_values_first_occurrences)

lemma distinct_first_occurrences: "distinct (first_occurrences xs)"
  by (induction xs rule: rev_induct)
     (simp_all add: first_occurrences_snoc set_first_occurrences, simp add: first_occurrences_def)

lemma inj_stringify: "inj JSON_stringify_problem"
  by (rule inj_on_inverseI[where g = "\<lambda>s. the (JSON_parse_problem s)"])
     (simp add: JSON_parse_stringify_problem)

lemma Set_values_map_inj:
  assumes "inj f"
  shows "Set_values (map f xs) = map f (Set_values xs)"
proof (induction xs rule: rev_induct)
  case Nil
  show ?case by (simp add: Set_values_def)
next
  case (snoc x xs)
  have "f x \<in> f ` set xs \<longleftrightarrow> x \<in> set xs"
    using assms by (simp add: inj_image_mem_iff)
  with snoc show ?case by (simp add: Set_values_snoc)
qed

lemma those_map_Some: "those (map (\<lambda>x. Some (g x)) xs) = Some (map g xs)"
  by (induction xs) simp_all

lemma dedup_problems_eq: "dedup_problems ps = Inr (first_occurrences ps)"
proof -
  have "map JSON_parse_problem (Set_values (map JSON_stringify_problem ps))
        = map (\<lambda>p. Some p) (Set_values ps)"
    by (simp add: Set_values_map_inj[OF inj_stringify] JSON_parse_stringify_problem comp_def)
  then have "those (map JSON_parse_problem (Set_values (map JSON_stringify_problem ps)))
        = Some (Set_values ps)"
    using those_map_Some[of "\<lambda>p. p" "Set_values ps"] by simp
  then show ?thesis
    by (simp add: dedup_problems_def Set_values_first_occurrences)
qed

lemma collect_problems_eq:
  "collect_problems t v =
     (if suggests_other_fix t v \<and> issues v = None then Inl TypeError_join
      else Inr (expected_problems t v))"
  by (auto simp: collect_problems_def expected_problems_def suggests_other_fix_def Let_def
           split: option.splits)

lemma for_validations_eq:
  "for_validations ts vs acc =
     (acc @ List.map_filter (expected_issue ts) (takeWhile (\<lambda>v. \<not> entry_raises ts v) vs),
      if \<exists>v \<in> set vs. entry_raises ts v then Some TypeError_join else None)"
proof (induction ts vs acc rule: for_validations.induct)
  case (1 ts acc)
  show ?case by (simp add: List.map_filter_simps)
next
  case (2 ts vs acc)
  then show ?case
    by (simp add: List.map_filter_simps entry_raises_def expected_issue_def)
next
  case (3 ts v vs acc)
  show ?case
  proof (cases "at_index ts (index v - 1)")
    case None
    with 3(1) show ?thesis
      by (simp add: List.map_filter_simps entry_raises_def expected_issue_def)
  next
    case (Some t)
    show ?thesis
    proof (cases "suggests_other_fix t v \<and> issues v = None")
      case True
      with Some show ?thesis
        by (simp add: collect_problems_eq entry_raises_def List.map_filter_simps)
    next
      case False
      then have c: "collect_problems t v = Inr (expected_problems t v)"
        by (simp add: collect_problems_eq)
      from False Some have nr: "\<not> entry_raises ts (Some v)"
        by (simp add: entry_raises_def)
      show ?thesis
      proof (cases "expected_problems t v = []")
        case True
        with 3(3)[OF Some c] Some c nr show ?thesis
          by (simp add: List.map_filter_simps expected_issue_def)
      next
        case False
        then have l: "0 < length (expected_problems t v)" by simp
        from 3(2)[OF Some c l dedup_problems_eq] Some c nr False show ?thesis
          by (simp add: List.map_filter_simps expected_issue_def dedup_problems_eq)
      qed
    qed
  qed
qed

lemma TypeError_join_not_fatal: "\<not> model_not_found TypeError_join"
  by (simp add: model_not_found_def message_includes_def TypeError_join_def)

lemma not_JSON_not_fatal: "\<not> model_not_found (Error (Some ''Response is not in JSON format''))"
  by (simp add: model_not_found_def message_includes_def)

lemma not_iterable_not_fatal:
  "\<not> model_not_found (Error (Some ''result.translations is not iterable''))"
  by (simp add: model_not_found_def message_includes_def)

lemma validateBatch_eq:
  "validateBatch JSON_parse response ts =
     (case try_validation JSON_parse response ts of
        (acc, None) \<Rightarrow> Inr acc
      | (acc, Some e) \<Rightarrow> if model_not_found e then Inl e else Inr acc)"
  by (simp add: validateBatch_def model_not_found_def split: prod.splits option.splits)

lemma validateBatch_generate_fails:
  "validateBatch JSON_parse (Inl e) ts = (if model_not_found e then Inl e else Inr [])"
  by (simp add: validateBatch_eq try_validation_def)

lemma validateBatch_not_JSON:
  "\<not> startsWith completion ''{'' \<Longrightarrow> validateBatch JSON_parse (Inr completion) ts = Inr []"
  using not_JSON_not_fatal by (simp add: validateBatch_eq try_validation_def)

lemma validateBatch_parse_fails:
  "startsWith completion ''{'' \<Longrightarrow> JSON_parse completion = Inl e \<Longrightarrow>
   validateBatch JSON_parse (Inr completion) ts = (if model_not_found e then Inl e else Inr [])"
  by (simp add: validateBatch_eq try_validation_def)

lemma validateBatch_not_iterable:
  "startsWith completion ''{'' \<Longrightarrow> JSON_parse completion = Inr None \<Longrightarrow>
   validateBatch JSON_parse (Inr completion) ts = Inr []"
  using not_iterable_not_fatal by (simp add: validateBatch_eq try_validation_def)

lemma validateBatch_parsed:
  "startsWith completion ''{'' \<Longrightarrow> JSON_parse completion = Inr (Some vs) \<Longrightarrow>
   validateBatch JSON_parse (Inr completion) ts =
     Inr (List.map_filter (expected_issue ts) (takeWhile (\<lambda>v. \<not> entry_raises ts v) vs))"
  using TypeError_join_not_fatal
  by (simp add: validateBatch_eq try_validation_def for_validations_eq del: for_validations.simps)

text \<open>
  Claim C2. For a model response whose entries carry their \<open>issues\<close> lists, as the
  response format has them, \<open>validateBatch\<close> returns, in the order of the response, one
  issue for each entry whose 1-based index points into the batch and whose problems are not
  empty, and nothing for the other entries: an entry gets an issue exactly when its batch
  pair has a placeholder problem or the entry has a linguistic one. The problems of an
  entry are the placeholder problems of its batch pair, followed by one
  \<open>linguistic_review\<close> problem (the issues joined by newlines) exactly when
  \<open>has_issues\<close> is true, \<open>suggested_fix\<close> is present (defined and not empty) and differs
  from the translation. The issue carries them deduplicated: going through the JSON text
  of each problem and back keeps exactly the first of structurally equal problems, in
  first-seen order. In any response, the entries before the first one that raises are
  treated in this way.
\<close>

theorem validateBatch_entries:
  "(startsWith completion ''{'' \<and> JSON_parse completion = Inr (Some vs)
      \<and> (\<forall>v. Some v \<in> set vs \<longrightarrow> issues v \<noteq> None) \<longrightarrow>
      validateBatch JSON_parse (Inr completion) ts = Inr (List.map_filter (expected_issue ts) vs))
   \<and> (startsWith completion ''{'' \<and> JSON_parse completion = Inr (Some (pre @ post))
      \<and> (\<forall>v \<in> set pre. \<not> entry_raises ts v) \<longrightarrow>
      (\<exists>more. validateBatch JSON_parse (Inr completion) ts
                = Inr (List.map_filter (expected_issue ts) pre @ more)))
   \<and> (expected_issue ts (Some v) \<noteq> None \<longleftrightarrow>
        (\<exists>t. at_index ts (index v - 1) = Some t
           \<and> (checkPlaceholderConsistency (msgid t) (msgstr t) \<noteq> []
               \<or> (has_issues v \<and> truthy (suggested_fix v) \<and> suggested_fix v \<noteq> Some (msgstr t)))))
   \<and> dedup_problems ps = Inr (first_occurrences ps)
   \<and> distinct (first_occurrences ps) \<and> set (first_occurrences ps) = set ps"
proof -
  have a: "validateBatch JSON_parse (Inr completion) ts = Inr (List.map_filter (expected_issue ts) vs)"
    if s: "startsWith completion ''{''" and p: "JSON_parse completion = Inr (Some vs)"
      and c: "\<forall>v. Some v \<in> set vs \<longrightarrow> issues v \<noteq> None"
  proof -
    have "\<not> entry_raises ts e" if "e \<in> set vs" for e
      using that c by (cases e) (auto simp: entry_raises_def split: option.splits)
    then have "takeWhile (\<lambda>v. \<not> entry_raises ts v) vs = vs"
      by (simp add: takeWhile_eq_all_conv)
    with validateBatch_parsed[of completion JSON_parse vs ts] s p show ?thesis by simp
  qed
  have b: "\<exists>more. validateBatch JSON_parse (Inr completion) ts
                = Inr (List.map_filter (expected_issue ts) pre @ more)"
    if s: "startsWith completion ''{''" and p: "JSON_parse completion = Inr (Some (pre @ post))"
      and c: "\<forall>v \<in> set pre. \<not> entry_raises ts v"
  proof -
    from c have "takeWhile (\<lambda>v. \<not> entry_raises ts v) (pre @ post)
                 = pre @ takeWhile (\<lambda>v. \<not> entry_raises ts v) post"
      by (simp add: takeWhile_append2)
    with validateBatch_parsed[of completion JSON_parse "pre @ post" ts] s p
    have "validateBatch JSON_parse (Inr completion) ts
          = Inr (List.map_filter (expected_issue ts) pre
                 @ List.map_filter (expected_issue ts) (takeWhile (\<lambda>v. \<not> entry_raises ts v) post))"
      by (simp add: List.map_filter_def)
    then show ?thesis by blast
  qed
  have d: "expected_issue ts (Some v) \<noteq> None \<longleftrightarrow>
        (\<exists>t. at_index ts (index v - 1) = Some t
           \<and> (checkPlaceholderConsistency (msgid t) (msgstr t) \<noteq> []
               \<or> (has_issues v \<and> truthy (suggested_fix v) \<and> suggested_fix v \<noteq> Some (msgstr t))))"
    by (auto simp: expected_issue_def expected_problems_def suggests_other_fix_def
          split: option.splits)
  show ?thesis
  proof (intro conjI impI)
    assume "startsWith completion ''{'' \<and> JSON_parse completion = Inr (Some vs)
      \<and> (\<forall>v. Some v \<in> set vs \<longrightarrow> issues v \<noteq> None)"
    then show "validateBatch JSON_parse (Inr completion) ts = Inr (List.map_filter (expected_issue ts) vs)"
      using a by blast
  next
    assume "startsWith completion ''{'' \<and> JSON_parse completion = Inr (Some (pre @ post))
      \<and> (\<forall>v \<in> set pre. \<not> entry_raises ts v)"
    then show "\<exists>more. validateBatch JSON_parse (Inr completion) ts
                = Inr (List.map_filter (expected_issue ts) pre @ more)"
      using b by blast
  next
    show "expected_issue ts (Some v) \<noteq> None \<longleftrightarrow>
        (\<exists>t. at_index ts (index v - 1) = Some t
           \<and> (checkPlaceholderConsistency (msgid t) (msgstr t) \<noteq> []
               \<or> (has_issues v \<and> truthy (suggested_fix v) \<and> suggested_fix v \<noteq> Some (msgstr t))))"
      by (rule d)
  next
    show "dedup_problems ps = Inr (first_occurrences ps)" by (rule dedup_problems_eq)
  next
    show "distinct (first_occurrences ps)" by (rule distinct_first_occurrences)
  next
    show "set (first_occurrences ps) = set ps" by (rule set_first_occurrences)
  qed
qed

theorem validateBatch_entries_witness:
  "validateBatch
     (\<lambda>s. Inr (Some [Some \<lparr>index = 1, has_issues = True,
                            issues = Some [''placeholder lost'', ''too short''],
                            suggested_fix = Some ''Sveiks %s''\<rparr>,
                      None,
                      Some \<lparr>index = 2, has_issues = False, issues = Some [], suggested_fix = None\<rparr>,
                      Some \<lparr>index = 5, has_issues = True, issues = Some [''no such entry''],
                            suggested_fix = Some ''x''\<rparr>]))
     (Inr ''{}'')
     [\<lparr>msgid = ''Hi %s'', msgstr = ''Sveiks''\<rparr>, \<lparr>msgid = ''Bye'', msgstr = ''Atvadas''\<rparr>]
   = Inr [\<lparr>msgid = ''Hi %s'', msgstr = ''Sveiks'',
           problems = [\<lparr>type = placeholder_mismatch, description = ''Missing placeholder(s): %s''\<rparr>,
                       \<lparr>type = linguistic_review,
                         description = ''placeholder lost'' @ [CHR 0x0A] @ ''too short''\<rparr>],
           suggestedFix = Some ''Sveiks %s''\<rparr>]
   \<and> (\<exists>more. validateBatch
       (\<lambda>s. Inr (Some ([Some \<lparr>index = 1, has_issues = True, issues = Some [''too informal''],
                               suggested_fix = Some ''Labdien''\<rparr>]
                        @ [Some \<lparr>index = 1, has_issues = True, issues = None,
                                 suggested_fix = Some ''Labdien''\<rparr>])))
       (Inr ''{}'') [\<lparr>msgid = ''Hello'', msgstr = ''Sveiki''\<rparr>]
     = Inr ([\<lparr>msgid = ''Hello'', msgstr = ''Sveiki'',
              problems = [\<lparr>type = linguistic_review, description = ''too informal''\<rparr>],
              suggestedFix = Some ''Labdien''\<rparr>] @ more))"
proof -
  let ?ts = "[\<lparr>msgid = ''Hi %s'', msgstr = ''Sveiks''\<rparr>, \<lparr>msgid = ''Bye'', msgstr = ''Atvadas''\<rparr>]"
  let ?vs = "[Some \<lparr>index = 1, has_issues = True,
                            issues = Some [''placeholder lost'', ''too short''],
                            suggested_fix = Some ''Sveiks %s''\<rparr>,
                      None,
                      Some \<lparr>index = 2, has_issues = False, issues = Some [], suggested_fix = None\<rparr>,
                      Some \<lparr>index = 5, has_issues = True, issues = Some [''no such entry''],
                            suggested_fix = Some ''x''\<rparr>]"
  let ?v = "\<lparr>index = 1, has_issues = True, issues = Some [''too informal''],
             suggested_fix = Some ''Labdien''\<rparr>"
  let ?pre = "[Some ?v]"
  let ?post = "[Some \<lparr>index = 1, has_issues = True, issues = None, suggested_fix = Some ''Labdien''\<rparr>]"
  let ?hello = "[\<lparr>msgid = ''Hello'', msgstr = ''Sveiki''\<rparr>]"
  let ?lr = "\<lparr>type = linguistic_review, description = ''too informal''\<rparr>"
  have a: "startsWith ''{}'' ''{''" by simp
  have c: "\<forall>v. Some v \<in> set ?vs \<longrightarrow> issues v \<noteq> None" by auto
  have f: "first_occurrences [\<lparr>type = placeholder_mismatch, description = ''Missing placeholder(s): %s''\<rparr>,
                       \<lparr>type = linguistic_review,
                         description = ''placeholder lost'' @ [CHR 0x0A] @ ''too short''\<rparr>]
           = [\<lparr>type = placeholder_mismatch, description = ''Missing placeholder(s): %s''\<rparr>,
                       \<lparr>type = linguistic_review,
                         description = ''placeholder lost'' @ [CHR 0x0A] @ ''too short''\<rparr>]"
    by (simp add: Set_values_first_occurrences[symmetric] Set_values_def)
  have d: "List.map_filter (expected_issue ?ts) ?vs =
     [\<lparr>msgid = ''Hi %s'', msgstr = ''Sveiks'',
           problems = [\<lparr>type = placeholder_mismatch, description = ''Missing placeholder(s): %s''\<rparr>,
                       \<lparr>type = linguistic_review,
                         description = ''placeholder lost'' @ [CHR 0x0A] @ ''too short''\<rparr>],
           suggestedFix = Some ''Sveiks %s''\<rparr>]"
    using f
    by (simp add: List.map_filter_simps expected_issue_def at_index_def expected_problems_def
          suggests_other_fix_def truthy_def checkPlaceholderConsistency_eq)
  have g: "first_occurrences [?lr] = [?lr]"
    by (simp add: Set_values_first_occurrences[symmetric] Set_values_def)
  have h: "List.map_filter (expected_issue ?hello) ?pre =
     [\<lparr>msgid = ''Hello'', msgstr = ''Sveiki'', problems = [?lr], suggestedFix = Some ''Labdien''\<rparr>]"
    using g
    by (simp add: List.map_filter_simps expected_issue_def at_index_def expected_problems_def
          suggests_other_fix_def truthy_def checkPlaceholderConsistency_eq)
  have r: "\<forall>v \<in> set ?pre. \<not> entry_raises ?hello v"
    by (simp add: entry_raises_def at_index_def)
  from validateBatch_entries[of "''{}''" "\<lambda>s. Inr (Some ?vs)" ?vs ?ts "[]" "[]" ?v "[]"] a c
  have 1: "validateBatch (\<lambda>s. Inr (Some ?vs)) (Inr ''{}'') ?ts
          = Inr (List.map_filter (expected_issue ?ts) ?vs)"
    by blast
  from validateBatch_entries[of "''{}''" "\<lambda>s. Inr (Some (?pre @ ?post))" "[]" ?hello ?pre ?post ?v "[]"] a r
  have 2: "\<exists>more. validateBatch (\<lambda>s. Inr (Some (?pre @ ?post))) (Inr ''{}'') ?hello
          = Inr (List.map_filter (expected_issue ?hello) ?pre @ more)"
    by blast
  from 1 2 show ?thesis unfolding d h by blast
qed

section \<open>The file validator\<close>

lemma at_index_mem: "at_index xs i = Some x \<Longrightarrow> x \<in> set xs"
  by (auto simp: at_index_def split: if_splits)

lemma expected_problems_types:
  "p \<in> set (expected_problems t v) \<Longrightarrow> type p = placeholder_mismatch \<or> type p = linguistic_review"
  by (auto simp: expected_problems_def dest: check_types split: if_splits)

lemma expected_issue_of:
  assumes "expected_issue ts entry = Some iss" "set ts \<subseteq> set valid"
  shows "issue_of valid iss"
proof -
  from assms(1) obtain v t where v: "entry = Some v" "at_index ts (index v - 1) = Some t"
    and iss: "iss = \<lparr>msgid = msgid t, msgstr = msgstr t,
                      problems = first_occurrences (expected_problems t v),
                      suggestedFix = suggested_fix v\<rparr>"
    by (auto simp: expected_issue_def split: option.splits if_splits)
  from v(2) assms(2) have "t \<in> set valid" using at_index_mem by fastforce
  then show ?thesis
    using iss expected_problems_types[of _ t v]
    by (auto simp: issue_of_def set_first_occurrences)
qed

lemma try_validation_fst:
  "fst (try_validation JSON_parse response ts) = []
   \<or> (\<exists>vs. fst (try_validation JSON_parse response ts) = List.map_filter (expected_issue ts) vs)"
  by (auto simp: try_validation_def Let_def for_validations_eq simp del: for_validations.simps
        split: sum.splits option.splits)

lemma validateBatch_fst:
  "validateBatch JSON_parse response ts = Inr out \<Longrightarrow> out = fst (try_validation JSON_parse response ts)"
  by (auto simp: validateBatch_def split: prod.splits option.splits if_splits)

lemma map_filter_mem:
  "x \<in> set (List.map_filter f xs) \<Longrightarrow> \<exists>y \<in> set xs. f y = Some x"
  by (auto simp: List.map_filter_def)

lemma validateBatch_issue_of:
  assumes "validateBatch JSON_parse response ts = Inr out" "set ts \<subseteq> set valid" "iss \<in> set out"
  shows "issue_of valid iss"
proof -
  from assms(1) have out: "out = fst (try_validation JSON_parse response ts)"
    by (rule validateBatch_fst)
  from try_validation_fst[of JSON_parse response ts] out assms(3)
  obtain vs where "out = List.map_filter (expected_issue ts) vs" by auto
  with assms(3) obtain entry where "expected_issue ts entry = Some iss"
    using map_filter_mem by fastforce
  then show ?thesis using assms(2) by (rule expected_issue_of)
qed

lemma technical_validation_issue_of:
  assumes "\<forall>iss \<in> set acc. issue_of valid iss" "set ts \<subseteq> set valid"
  shows "\<forall>iss \<in> set (technical_validation ts acc). issue_of valid iss"
  using assms
proof (induction ts arbitrary: acc)
  case Nil
  then show ?case by simp
next
  case (Cons t ts)
  let ?new = "\<lparr>msgid = msgid t, msgstr = msgstr t,
               problems = checkPlaceholderConsistency (msgid t) (msgstr t),
               suggestedFix = Some generic_fix\<rparr>"
  have "issue_of valid ?new"
    using Cons.prems(2) check_types[of _ "msgid t" "msgstr t"] by (auto simp: issue_of_def)
  with Cons.prems have "\<forall>iss \<in> set (acc @ [?new]). issue_of valid iss" by simp
  with Cons.IH[of "acc @ [?new]"] Cons.IH[of acc] Cons.prems show ?case
    by (simp add: Let_def)
qed

lemma merge_issue_issue_of:
  assumes "\<forall>iss \<in> set allIssues. issue_of valid iss" "issue_of valid b"
  shows "\<forall>iss \<in> set (merge_issue allIssues b). issue_of valid iss"
proof (cases "find_issue allIssues b")
  case None
  with assms show ?thesis by (simp add: merge_issue_def)
next
  case (Some k)
  note f = find_issue_Some[OF Some]
  let ?old = "allIssues ! k"
  have old: "issue_of valid ?old" using f assms(1) by simp
  let ?pushed = "?old\<lparr>problems := problems ?old @ problems b\<rparr>"
  have p: "issue_of valid ?pushed" "issue_of valid (?pushed\<lparr>suggestedFix := suggestedFix b\<rparr>)"
    using old assms(2) by (auto simp: issue_of_def)
  have "set (allIssues[k := y]) \<subseteq> insert y (set allIssues)" for y
    by (rule set_update_subset_insert)
  with p assms(1) Some show ?thesis
    by (auto simp: merge_issue_def Let_def)
qed

lemma foldl_merge_issue_of:
  assumes "\<forall>iss \<in> set allIssues. issue_of valid iss" "\<forall>iss \<in> set bs. issue_of valid iss"
  shows "\<forall>iss \<in> set (foldl merge_issue allIssues bs). issue_of valid iss"
  using assms
proof (induction bs arbitrary: allIssues)
  case Nil
  then show ?case by simp
next
  case (Cons b bs)
  from Cons.prems have "issue_of valid b" by simp
  with Cons.prems(1) have "\<forall>iss \<in> set (merge_issue allIssues b). issue_of valid iss"
    by (rule merge_issue_issue_of)
  moreover from Cons.prems(2) have "\<forall>iss \<in> set bs. issue_of valid iss" by simp
  ultimately have "\<forall>iss \<in> set (foldl merge_issue (merge_issue allIssues b) bs). issue_of valid iss"
    by (rule Cons.IH)
  then show ?case by simp
qed

lemma batch_pass_issue_of:
  assumes "\<forall>iss \<in> set allIssues. issue_of valid iss" "\<forall>batch \<in> set batches. set batch \<subseteq> set valid"
  shows "\<forall>iss \<in> set (fst (batch_pass JSON_parse generate n batches allIssues)). issue_of valid iss"
  using assms
proof (induction batches arbitrary: n allIssues)
  case Nil
  then show ?case by simp
next
  case (Cons batch rest)
  show ?case
  proof (cases "validateBatch JSON_parse (generate n) batch")
    case (Inl e)
    with Cons.prems show ?thesis by simp
  next
    case (Inr batchIssues)
    have "\<forall>iss \<in> set batchIssues. issue_of valid iss"
      using validateBatch_issue_of[OF Inr] Cons.prems(2) by simp
    with Cons.prems(1) have "\<forall>iss \<in> set (foldl merge_issue allIssues batchIssues). issue_of valid iss"
      by (rule foldl_merge_issue_of)
    with Cons.IH[of "foldl merge_issue allIssues batchIssues" "Suc n"] Cons.prems(2) Inr
    show ?thesis by simp
  qed
qed

lemma validatePoFile_cases:
  "validatePoFile JSON_parse generate (Inr items) bs = Some (Inr out) \<Longrightarrow>
   \<exists>batches. partition_loop (validTranslations items)
       (case bs of None \<Rightarrow> Finite 10 | Some n \<Rightarrow> n) (Finite 0) [] = Some batches
     \<and> out = fst (batch_pass JSON_parse generate 0 batches
                    (technical_validation (validTranslations items) []))"
  by (auto simp: validatePoFile_def Let_def split: option.splits)

lemma validatePoFile_issue_of:
  assumes "validatePoFile JSON_parse generate (Inr items) bs = Some (Inr out)"
  shows "\<forall>iss \<in> set out. issue_of (validTranslations items) iss"
proof -
  let ?valid = "validTranslations items"
  from validatePoFile_cases[OF assms] obtain batches where
    b: "partition_loop ?valid (case bs of None \<Rightarrow> Finite 10 | Some n \<Rightarrow> n) (Finite 0) [] = Some batches"
    and out: "out = fst (batch_pass JSON_parse generate 0 batches (technical_validation ?valid []))"
    by blast
  from partition_loop_members[OF b] have "\<forall>batch \<in> set batches. set batch \<subseteq> set ?valid"
    by auto
  moreover have "\<forall>iss \<in> set (technical_validation ?valid []). issue_of ?valid iss"
    by (rule technical_validation_issue_of) simp_all
  ultimately show ?thesis unfolding out by (rule batch_pass_issue_of[rotated])
qed

lemma keeps_refl: "keeps xs xs"
  by (simp add: keeps_def)

lemma keeps_trans: "keeps xs ys \<Longrightarrow> keeps ys zs \<Longrightarrow> keeps xs zs"
  unfolding keeps_def
  by (metis (no_types, lifting) le_trans less_le_trans prefix_order.order_trans)

lemma merge_issue_keeps: "keeps allIssues (merge_issue allIssues b)"
proof (cases "find_issue allIssues b")
  case None
  then show ?thesis by (simp add: merge_issue_def keeps_def nth_append)
next
  case (Some k)
  note f = find_issue_Some[OF Some]
  show ?thesis
    unfolding keeps_def
  proof (intro conjI allI impI)
    show "length allIssues \<le> length (merge_issue allIssues b)"
      using Some by (simp add: merge_issue_def Let_def)
  next
    fix i assume i: "i < length allIssues"
    show "msgid (merge_issue allIssues b ! i) = msgid (allIssues ! i)"
      using Some i by (cases "i = k") (simp_all add: merge_issue_def Let_def)
    show "msgstr (merge_issue allIssues b ! i) = msgstr (allIssues ! i)"
      using Some i by (cases "i = k") (simp_all add: merge_issue_def Let_def)
    show "prefix (problems (allIssues ! i)) (problems (merge_issue allIssues b ! i))"
      using Some i by (cases "i = k") (simp_all add: merge_issue_def Let_def)
  qed
qed

lemma foldl_merge_keeps: "keeps allIssues (foldl merge_issue allIssues bs)"
proof (induction bs arbitrary: allIssues)
  case Nil
  show ?case by (simp add: keeps_refl)
next
  case (Cons b bs)
  have "keeps allIssues (merge_issue allIssues b)" by (rule merge_issue_keeps)
  moreover have "keeps (merge_issue allIssues b) (foldl merge_issue (merge_issue allIssues b) bs)"
    by (rule Cons.IH)
  ultimately show ?case using keeps_trans by simp
qed

lemma batch_pass_keeps:
  "keeps allIssues (fst (batch_pass JSON_parse generate n batches allIssues))"
proof (induction batches arbitrary: n allIssues)
  case Nil
  show ?case by (simp add: keeps_refl)
next
  case (Cons batch rest)
  show ?case
  proof (cases "validateBatch JSON_parse (generate n) batch")
    case (Inl e)
    then show ?thesis by (simp add: keeps_refl)
  next
    case (Inr batchIssues)
    have "keeps allIssues (foldl merge_issue allIssues batchIssues)" by (rule foldl_merge_keeps)
    moreover have "keeps (foldl merge_issue allIssues batchIssues)
        (fst (batch_pass JSON_parse generate (Suc n) rest (foldl merge_issue allIssues batchIssues)))"
      by (rule Cons.IH)
    ultimately show ?thesis using Inr keeps_trans by simp
  qed
qed

lemma batch_pass_abort:
  assumes "batch_pass JSON_parse generate n pre allIssues = (acc, True)"
    and "validateBatch JSON_parse (generate (n + length pre)) batch = Inl e"
  shows "batch_pass JSON_parse generate n (pre @ batch # post) allIssues = (acc, False)"
  using assms
proof (induction pre arbitrary: n allIssues)
  case Nil
  then show ?case by simp
next
  case (Cons b pre)
  show ?case
  proof (cases "validateBatch JSON_parse (generate n) b")
    case (Inl e')
    with Cons.prems(1) show ?thesis by simp
  next
    case (Inr batchIssues)
    with Cons.prems(1)
    have "batch_pass JSON_parse generate (Suc n) pre (foldl merge_issue allIssues batchIssues) = (acc, True)"
      by simp
    moreover from Cons.prems(2)
    have "validateBatch JSON_parse (generate (Suc n + length pre)) batch = Inl e" by simp
    ultimately have "batch_pass JSON_parse generate (Suc n) (pre @ batch # post)
        (foldl merge_issue allIssues batchIssues) = (acc, False)"
      by (rule Cons.IH)
    with Inr show ?thesis by simp
  qed
qed

lemma validatePoFile_returns:
  assumes "1 \<le> k"
  shows "\<exists>out. validatePoFile JSON_parse generate (Inr items) (Some (Finite (of_int k)))
               = Some (Inr out)"
proof -
  from partition_loop_from[OF assms, of 0 "validTranslations items" "[]"]
  obtain batches where
    "partition_loop (validTranslations items) (Finite (of_int k)) (Finite 0) [] = Some batches"
    by auto
  then show ?thesis by (simp add: validatePoFile_def Let_def)
qed

lemma validatePoFile_keeps:
  assumes "validatePoFile JSON_parse generate (Inr items) bs = Some (Inr out)"
  shows "keeps (technical_validation (validTranslations items) []) out"
  using validatePoFile_cases[OF assms] batch_pass_keeps by auto

lemma kept_truthy: "kept item \<longleftrightarrow> truthy (first_msgstr item)"
  by (simp add: kept_def truthy_def first_msgstr_def split: list.splits)

lemma validTranslations_map_filter:
  "validTranslations items =
     List.map_filter (\<lambda>item. if kept item
        then Some \<lparr>msgid = item_msgid item, msgstr = hd (item_msgstr item)\<rparr> else None) items"
proof -
  have "js_or (first_msgstr item) [] = hd (item_msgstr item)" if "kept item" for item
    using that by (auto simp: kept_def js_or_def first_msgstr_def split: list.splits)
  then have "map (\<lambda>item. \<lparr>msgid = item_msgid item, msgstr = js_or (first_msgstr item) []\<rparr>) (filter kept items)
           = map (\<lambda>item. \<lparr>msgid = item_msgid item, msgstr = hd (item_msgstr item)\<rparr>) (filter kept items)"
    by simp
  then show ?thesis
    by (simp add: validTranslations_def List.map_filter_def kept_truthy[symmetric] comp_def
         flip: kept_truthy cong: map_cong)
qed

text \<open>
  Claim C10, as amended. For every integer batch size of at least 1 the partition loop of
  \<open>validatePoFile\<close> terminates, and its batches are contiguous, non-empty and of at most
  \<open>batchSize\<close> entries: the \<open>k\<close>-th batch is the next \<open>batchSize\<close> kept entries after the
  first \<open>k * batchSize\<close>, and the batches concatenated in order are the kept entries. For a
  batch size of 0 or less and at least one kept entry the loop never reaches its exit:
  after any number of rounds the counter is still below the number of kept entries, and
  the loop has pushed one batch per round. So the loop does not return, and neither does
  \<open>validatePoFile\<close>; a run on an engine goes on until the heap is exhausted. The
  parameter, 10 when the caller leaves it out, is nowhere checked to be a positive integer.
\<close>

theorem partition_loop_batches:
  "(1 \<le> k \<longrightarrow>
      (\<exists>batches. partition_loop valid (Finite (of_int k)) (Finite 0) [] = Some batches
         \<and> concat batches = valid
         \<and> (\<forall>j < length batches.
               batches ! j = take (nat k) (drop (j * nat k) valid)
               \<and> batches ! j \<noteq> [] \<and> int (length (batches ! j)) \<le> k)))
   \<and> (1 \<le> k \<longrightarrow>
        (\<exists>out. validatePoFile JSON_parse generate (Inr items) (Some (Finite (of_int k)))
                = Some (Inr out)))
   \<and> (at_most_zero batchSize \<and> valid \<noteq> [] \<longrightarrow>
        (\<forall>n. less_than_length (fst (loop_state valid batchSize n)) (length valid)
             \<and> length (snd (loop_state valid batchSize n)) = n
             \<and> partition_loop valid batchSize (Finite 0) []
                 = partition_loop valid batchSize (fst (loop_state valid batchSize n))
                     (snd (loop_state valid batchSize n)))
        \<and> partition_loop valid batchSize (Finite 0) [] = None)
   \<and> (at_most_zero batchSize \<and> validTranslations items \<noteq> [] \<longrightarrow>
        validatePoFile JSON_parse generate (Inr items) (Some batchSize) = None)
   \<and> validatePoFile JSON_parse generate poData None
       = validatePoFile JSON_parse generate poData (Some (Finite 10))"
proof -
  have pos: "\<exists>batches. partition_loop valid (Finite (of_int k)) (Finite 0) [] = Some batches
         \<and> concat batches = valid
         \<and> (\<forall>j < length batches.
               batches ! j = take (nat k) (drop (j * nat k) valid)
               \<and> batches ! j \<noteq> [] \<and> int (length (batches ! j)) \<le> k)"
    if b: "1 \<le> k"
  proof -
    from partition_loop_from[OF b, of 0 valid "[]"]
    obtain new where new: "partition_loop valid (Finite (of_int k)) (Finite 0) [] = Some new"
      "concat new = valid"
      "\<forall>j < length new. new ! j = take (nat k) (drop (j * nat k) valid) \<and> new ! j \<noteq> []"
      by auto
    have "int (length (new ! j)) \<le> k" if "j < length new" for j
    proof -
      from new(3) that have "new ! j = take (nat k) (drop (j * nat k) valid)" by blast
      then have "length (new ! j) \<le> nat k" by simp
      with b show ?thesis by linarith
    qed
    with new show ?thesis by blast
  qed
  have neg: "partition_loop v batchSize (Finite 0) [] = None"
    if "at_most_zero batchSize" "v \<noteq> []" for v
  proof (cases "partition_loop v batchSize (Finite 0) []")
    case None
    then show ?thesis .
  next
    case (Some r)
    from partition_loop_diverges[OF Some] that show ?thesis by simp
  qed
  have rounds: "less_than_length (fst (loop_state valid batchSize n)) (length valid)
             \<and> length (snd (loop_state valid batchSize n)) = n
             \<and> partition_loop valid batchSize (Finite 0) []
                 = partition_loop valid batchSize (fst (loop_state valid batchSize n))
                     (snd (loop_state valid batchSize n))"
    if z: "at_most_zero batchSize" and v: "valid \<noteq> []" for n
  proof -
    have "\<forall>m < n. less_than_length (fst (loop_state valid batchSize m)) (length valid)"
      using loop_state_running[OF z v] by blast
    then have "partition_loop valid batchSize (Finite 0) []
                 = partition_loop valid batchSize (fst (loop_state valid batchSize n))
                     (snd (loop_state valid batchSize n))"
      by (rule partition_loop_unroll)
    with loop_state_running[OF z v, of n] show ?thesis by blast
  qed
  have fl: "validatePoFile JSON_parse generate (Inr items) (Some batchSize) = None"
    if "at_most_zero batchSize" "validTranslations items \<noteq> []"
    using neg[OF that] by (simp add: validatePoFile_def Let_def)
  have dflt: "validatePoFile JSON_parse generate poData None
       = validatePoFile JSON_parse generate poData (Some (Finite 10))"
    by (cases poData) (simp_all add: validatePoFile_def)
  show ?thesis
  proof (intro conjI impI allI)
    assume "1 \<le> k"
    then show "\<exists>batches. partition_loop valid (Finite (of_int k)) (Finite 0) [] = Some batches
         \<and> concat batches = valid
         \<and> (\<forall>j < length batches.
               batches ! j = take (nat k) (drop (j * nat k) valid)
               \<and> batches ! j \<noteq> [] \<and> int (length (batches ! j)) \<le> k)"
      by (rule pos)
  next
    assume "1 \<le> k"
    then show "\<exists>out. validatePoFile JSON_parse generate (Inr items) (Some (Finite (of_int k)))
                = Some (Inr out)"
      by (rule validatePoFile_returns)
  next
    fix n assume a: "at_most_zero batchSize \<and> valid \<noteq> []"
    from a rounds[of n]
    show "less_than_length (fst (loop_state valid batchSize n)) (length valid)" by blast
    from a rounds[of n]
    show "length (snd (loop_state valid batchSize n)) = n" by blast
    from a rounds[of n]
    show "partition_loop valid batchSize (Finite 0) []
                 = partition_loop valid batchSize (fst (loop_state valid batchSize n))
                     (snd (loop_state valid batchSize n))" by blast
  next
    assume "at_most_zero batchSize \<and> valid \<noteq> []"
    then show "partition_loop valid batchSize (Finite 0) [] = None" using neg by blast
  next
    assume "at_most_zero batchSize \<and> validTranslations items \<noteq> []"
    then show "validatePoFile JSON_parse generate (Inr items) (Some batchSize) = None"
      using fl by blast
  next
    show "validatePoFile JSON_parse generate poData None
       = validatePoFile JSON_parse generate poData (Some (Finite 10))"
      by (rule dflt)
  qed
qed

text \<open>
  The restriction to integers is needed. With a batch size of one and a half and four kept
  entries the loop slices at 0, 1.5, 3 and 4.5, and \<open>slice\<close> truncates its bounds: the
  second batch has two entries, more than the batch size.
\<close>

theorem partition_loop_batches_counterexample:
  "partition_loop
     [\<lparr>msgid = ''a'', msgstr = ''w''\<rparr>, \<lparr>msgid = ''b'', msgstr = ''x''\<rparr>,
      \<lparr>msgid = ''c'', msgstr = ''y''\<rparr>, \<lparr>msgid = ''d'', msgstr = ''z''\<rparr>]
     (Finite (3 / 2)) (Finite 0) []
   = Some [[\<lparr>msgid = ''a'', msgstr = ''w''\<rparr>],
           [\<lparr>msgid = ''b'', msgstr = ''x''\<rparr>, \<lparr>msgid = ''c'', msgstr = ''y''\<rparr>],
           [\<lparr>msgid = ''d'', msgstr = ''z''\<rparr>]]
   \<and> (1 :: rat) \<le> 3 / 2
   \<and> \<not> (of_nat (length [\<lparr>msgid = ''b'', msgstr = ''x''\<rparr>, \<lparr>msgid = ''c'', msgstr = ''y''\<rparr>])
          \<le> (3 / 2 :: rat))"
proof -
  have "partition_loop
     [\<lparr>msgid = ''a'', msgstr = ''w''\<rparr>, \<lparr>msgid = ''b'', msgstr = ''x''\<rparr>,
      \<lparr>msgid = ''c'', msgstr = ''y''\<rparr>, \<lparr>msgid = ''d'', msgstr = ''z''\<rparr>]
     (Finite (3 / 2)) (Finite 0) []
   = Some [[\<lparr>msgid = ''a'', msgstr = ''w''\<rparr>],
           [\<lparr>msgid = ''b'', msgstr = ''x''\<rparr>, \<lparr>msgid = ''c'', msgstr = ''y''\<rparr>],
           [\<lparr>msgid = ''d'', msgstr = ''z''\<rparr>]]"
    by code_simp
  then show ?thesis by simp
qed

theorem partition_loop_batches_witness:
  "(\<exists>batches.
      partition_loop [\<lparr>msgid = ''a'', msgstr = ''x''\<rparr>, \<lparr>msgid = ''b'', msgstr = ''y''\<rparr>,
                      \<lparr>msgid = ''c'', msgstr = ''z''\<rparr>] (Finite 2) (Finite 0) [] = Some batches
      \<and> concat batches = [\<lparr>msgid = ''a'', msgstr = ''x''\<rparr>, \<lparr>msgid = ''b'', msgstr = ''y''\<rparr>,
                      \<lparr>msgid = ''c'', msgstr = ''z''\<rparr>])
   \<and> partition_loop [\<lparr>msgid = ''a'', msgstr = ''x''\<rparr>] (Finite 0) (Finite 0) [] = None
   \<and> length (snd (loop_state [\<lparr>msgid = ''a'', msgstr = ''x''\<rparr>] (Finite 0) 1000)) = 1000
   \<and> validatePoFile (\<lambda>s. Inr None) (\<lambda>n. Inr ''{}'') (Inr [Item ''a'' [''x'']])
        (Some (Finite (- 1))) = None"
proof -
  let ?three = "[\<lparr>msgid = ''a'', msgstr = ''x''\<rparr>, \<lparr>msgid = ''b'', msgstr = ''y''\<rparr>,
                      \<lparr>msgid = ''c'', msgstr = ''z''\<rparr>]"
  let ?one = "[\<lparr>msgid = ''a'', msgstr = ''x''\<rparr>]"
  let ?P = "\<lambda>s::string. Inr None :: error + validation option list option"
  let ?g = "\<lambda>n::nat. Inr ''{}'' :: error + string"
  have v: "validTranslations [Item ''a'' [''x'']] \<noteq> []"
    by (simp add: validTranslations_def truthy_def first_msgstr_def)
  from partition_loop_batches[of 2 ?three ?P ?g "[]" "Finite 0" "Inr []"]
  have 1: "\<exists>batches. partition_loop ?three (Finite 2) (Finite 0) [] = Some batches
             \<and> concat batches = ?three"
    by auto
  from partition_loop_batches[of 1 ?one ?P ?g "[]" "Finite 0" "Inr []"]
  have 2: "partition_loop ?one (Finite 0) (Finite 0) [] = None"
    and 3: "length (snd (loop_state ?one (Finite 0) 1000)) = 1000"
    by simp_all
  from partition_loop_batches[of 1 "[]" ?P ?g "[Item ''a'' [''x'']]" "Finite (- 1)" "Inr []"] v
  have 4: "validatePoFile ?P ?g (Inr [Item ''a'' [''x'']]) (Some (Finite (- 1))) = None"
    by simp
  from 1 2 3 4 show ?thesis by blast
qed

text \<open>
  Claim C6. \<open>validatePoFile\<close> keeps exactly the entries whose first translation string
  \<open>msgstr[0]\<close> exists and is not empty, in their order. The others are dropped before
  both passes: the result is the one for the file without them. Every returned issue has a
  non-empty \<open>msgstr\<close> and the pair of a kept entry, so no returned issue carries the
  \<open>msgid\<close> of an untranslated entry together with its \<open>msgstr[0]\<close>, whatever placeholders
  that \<open>msgid\<close> has.
\<close>

theorem untranslated_skipped:
  "validTranslations items =
     List.map_filter (\<lambda>item. if kept item
        then Some \<lparr>msgid = item_msgid item, msgstr = hd (item_msgstr item)\<rparr> else None) items
   \<and> validatePoFile JSON_parse generate (Inr items) bs
       = validatePoFile JSON_parse generate (Inr (filter kept items)) bs
   \<and> (validatePoFile JSON_parse generate (Inr items) bs = Some (Inr out) \<and> iss \<in> set out \<longrightarrow>
        msgstr iss \<noteq> []
        \<and> (\<exists>item \<in> set items. kept item \<and> msgid iss = item_msgid item
              \<and> msgstr iss = hd (item_msgstr item))
        \<and> (\<forall>u \<in> set items. \<not> kept u \<longrightarrow>
              \<not> (msgid iss = item_msgid u \<and> first_msgstr u = Some (msgstr iss))))"
proof -
  have same: "validTranslations (filter kept items) = validTranslations items"
    by (simp add: validTranslations_def kept_truthy)
  have a: "validatePoFile JSON_parse generate (Inr items) bs
       = validatePoFile JSON_parse generate (Inr (filter kept items)) bs"
    by (simp add: validatePoFile_def same)
  have b: "msgstr iss \<noteq> []
        \<and> (\<exists>item \<in> set items. kept item \<and> msgid iss = item_msgid item
              \<and> msgstr iss = hd (item_msgstr item))
        \<and> (\<forall>u \<in> set items. \<not> kept u \<longrightarrow>
              \<not> (msgid iss = item_msgid u \<and> first_msgstr u = Some (msgstr iss)))"
    if run: "validatePoFile JSON_parse generate (Inr items) bs = Some (Inr out)" and mem: "iss \<in> set out"
  proof -
    from validatePoFile_issue_of[OF run] mem
    obtain t where t: "t \<in> set (validTranslations items)" "msgid iss = msgid t" "msgstr iss = msgstr t"
      by (auto simp: issue_of_def)
    from t(1) obtain item where item: "item \<in> set items" "kept item"
      "t = \<lparr>msgid = item_msgid item, msgstr = hd (item_msgstr item)\<rparr>"
      unfolding validTranslations_map_filter
      by (auto dest!: map_filter_mem split: if_splits)
    from item(2) have ne: "hd (item_msgstr item) \<noteq> []"
      by (auto simp: kept_def split: list.splits)
    have "\<not> (msgid iss = item_msgid u \<and> first_msgstr u = Some (msgstr iss))" if "\<not> kept u" for u
      using that ne t(3) item(3) by (auto simp: kept_def first_msgstr_def split: list.splits)
    with t item ne show ?thesis by auto
  qed
  from validTranslations_map_filter[of items] a b show ?thesis by blast
qed

theorem untranslated_skipped_witness:
  "validatePoFile
     (\<lambda>s. Inr (Some [Some \<lparr>index = 1, has_issues = True, issues = Some [''placeholder lost''],
                            suggested_fix = Some ''Sveiks %s''\<rparr>]))
     (\<lambda>n. Inr ''{}'')
     (Inr [Item ''Skip %d'' [[]], Item ''Hi %s'' [''Sveiks'']]) (Some (Finite 1))
   = Some (Inr [\<lparr>msgid = ''Hi %s'', msgstr = ''Sveiks'',
           problems =
             [\<lparr>type = placeholder_mismatch, description = ''Missing placeholder(s): %s''\<rparr>,
              \<lparr>type = placeholder_mismatch, description = ''Missing placeholder(s): %s''\<rparr>,
              \<lparr>type = linguistic_review, description = ''placeholder lost''\<rparr>],
           suggestedFix = Some ''Sveiks %s''\<rparr>])
   \<and> (\<exists>item \<in> set [Item ''Skip %d'' [[]], Item ''Hi %s'' [''Sveiks'']].
         kept item \<and> item_msgid item = ''Hi %s'' \<and> hd (item_msgstr item) = ''Sveiks'')
   \<and> \<not> kept (Item ''Skip %d'' [[]])"
proof -
  let ?P = "\<lambda>s::string. Inr (Some [Some \<lparr>index = 1, has_issues = True, issues = Some [''placeholder lost''],
                            suggested_fix = Some ''Sveiks %s''\<rparr>]) :: error + validation option list option"
  let ?g = "\<lambda>n::nat. Inr ''{}'' :: error + string"
  let ?items = "[Item ''Skip %d'' [[]], Item ''Hi %s'' [''Sveiks'']]"
  let ?X = "\<lparr>msgid = ''Hi %s'', msgstr = ''Sveiks'',
           problems =
             [\<lparr>type = placeholder_mismatch, description = ''Missing placeholder(s): %s''\<rparr>,
              \<lparr>type = placeholder_mismatch, description = ''Missing placeholder(s): %s''\<rparr>,
              \<lparr>type = linguistic_review, description = ''placeholder lost''\<rparr>],
           suggestedFix = Some ''Sveiks %s''\<rparr>"
  have run: "validatePoFile ?P ?g (Inr ?items) (Some (Finite 1)) = Some (Inr [?X])"
    by code_simp
  have mem: "?X \<in> set [?X]" by simp
  from untranslated_skipped[of ?items ?P ?g "Some (Finite 1)" "[?X]" ?X] run mem
  have "\<exists>item \<in> set ?items. kept item \<and> msgid ?X = item_msgid item \<and> msgstr ?X = hd (item_msgstr item)"
    by blast
  then have "\<exists>item \<in> set ?items. kept item \<and> item_msgid item = ''Hi %s'' \<and> hd (item_msgstr item) = ''Sveiks''"
    by simp
  moreover have "\<not> kept (Item ''Skip %d'' [[]])" by (simp add: kept_def)
  ultimately show ?thesis using run by blast
qed

text \<open>
  Claim C9. Every problem in an issue returned by \<open>validateBatch\<close> or by
  \<open>validatePoFile\<close> has type \<open>placeholder_mismatch\<close> or \<open>linguistic_review\<close>, never
  \<open>grammar_issue\<close>; the problems of the technical check are all of type
  \<open>placeholder_mismatch\<close>.
\<close>

theorem problem_types:
  "(p \<in> set (checkPlaceholderConsistency a b) \<longrightarrow> type p = placeholder_mismatch)
   \<and> (validateBatch JSON_parse response ts = Inr out \<and> iss \<in> set out \<and> p \<in> set (problems iss) \<longrightarrow>
        (type p = placeholder_mismatch \<or> type p = linguistic_review) \<and> type p \<noteq> grammar_issue)
   \<and> (validatePoFile JSON_parse generate poData bs = Some (Inr out) \<and> iss \<in> set out
        \<and> p \<in> set (problems iss) \<longrightarrow>
        (type p = placeholder_mismatch \<or> type p = linguistic_review) \<and> type p \<noteq> grammar_issue)"
proof -
  have 1: "type p = placeholder_mismatch" if "p \<in> set (checkPlaceholderConsistency a b)"
    using that by (rule check_types)
  have 2: "(type p = placeholder_mismatch \<or> type p = linguistic_review) \<and> type p \<noteq> grammar_issue"
    if "validateBatch JSON_parse response ts = Inr out" "iss \<in> set out" "p \<in> set (problems iss)"
  proof -
    from validateBatch_issue_of[OF that(1) subset_refl that(2)]
    have "\<forall>q \<in> set (problems iss). type q = placeholder_mismatch \<or> type q = linguistic_review"
      by (simp add: issue_of_def)
    with that(3) have "type p = placeholder_mismatch \<or> type p = linguistic_review" by blast
    then show ?thesis by auto
  qed
  have 3: "(type p = placeholder_mismatch \<or> type p = linguistic_review) \<and> type p \<noteq> grammar_issue"
    if run: "validatePoFile JSON_parse generate poData bs = Some (Inr out)" and "iss \<in> set out" "p \<in> set (problems iss)"
  proof (cases poData)
    case (Inl e)
    with run show ?thesis by (simp add: validatePoFile_def)
  next
    case (Inr items)
    with run have "validatePoFile JSON_parse generate (Inr items) bs = Some (Inr out)" by simp
    from validatePoFile_issue_of[OF this] that(2)
    have "\<forall>q \<in> set (problems iss). type q = placeholder_mismatch \<or> type q = linguistic_review"
      by (simp add: issue_of_def)
    with that(3) have "type p = placeholder_mismatch \<or> type p = linguistic_review" by blast
    then show ?thesis by auto
  qed
  from 1 2 3 show ?thesis by blast
qed

theorem problem_types_witness:
  "validatePoFile
     (\<lambda>s. Inr (Some [Some \<lparr>index = 1, has_issues = True, issues = Some [''placeholder lost''],
                            suggested_fix = Some ''Sveiks %s''\<rparr>]))
     (\<lambda>n. Inr ''{}'')
     (Inr [Item ''Skip %d'' [[]], Item ''Hi %s'' [''Sveiks'']]) None
   = Some (Inr [\<lparr>msgid = ''Hi %s'', msgstr = ''Sveiks'',
           problems =
             [\<lparr>type = placeholder_mismatch, description = ''Missing placeholder(s): %s''\<rparr>,
              \<lparr>type = placeholder_mismatch, description = ''Missing placeholder(s): %s''\<rparr>,
              \<lparr>type = linguistic_review, description = ''placeholder lost''\<rparr>],
           suggestedFix = Some ''Sveiks %s''\<rparr>])
   \<and> type \<lparr>type = linguistic_review, description = ''placeholder lost''\<rparr> \<noteq> grammar_issue"
proof -
  let ?P = "\<lambda>s::string. Inr (Some [Some \<lparr>index = 1, has_issues = True, issues = Some [''placeholder lost''],
                            suggested_fix = Some ''Sveiks %s''\<rparr>]) :: error + validation option list option"
  let ?g = "\<lambda>n::nat. Inr ''{}'' :: error + string"
  let ?items = "[Item ''Skip %d'' [[]], Item ''Hi %s'' [''Sveiks'']]"
  let ?lr = "\<lparr>type = linguistic_review, description = ''placeholder lost''\<rparr>"
  let ?X = "\<lparr>msgid = ''Hi %s'', msgstr = ''Sveiks'',
           problems =
             [\<lparr>type = placeholder_mismatch, description = ''Missing placeholder(s): %s''\<rparr>,
              \<lparr>type = placeholder_mismatch, description = ''Missing placeholder(s): %s''\<rparr>,
              ?lr],
           suggestedFix = Some ''Sveiks %s''\<rparr>"
  have run: "validatePoFile ?P ?g (Inr ?items) None = Some (Inr [?X])"
    by code_simp
  have mem: "?X \<in> set [?X]" "?lr \<in> set (problems ?X)" by simp_all
  from problem_types[of ?lr "''''" "''''" ?P "Inr ''''" "[]" "[?X]" ?X ?g "Inr ?items" None] run mem
  have "type ?lr \<noteq> grammar_issue" by blast
  with run show ?thesis by blast
qed

text \<open>
  Claim C4, as amended. An error raised during a batch's AI validation whose message
  contains both \<open>model\<close> and \<open>not found\<close> propagates out of \<open>validateBatch\<close>;
  \<open>validatePoFile\<close> then skips the remaining batches and still returns, without throwing,
  the issues accumulated so far: those of the technical pass merged with those of the
  earlier batches. Any other error is absorbed inside \<open>validateBatch\<close>, which returns the
  issues of the response entries before the one that raised: none when the model call, the
  JSON-format check, the parsing or the lookup of the \<open>translations\<close> list fails. The
  following batches are validated as usual, and every issue of the technical pass stays in
  the result, at its position, its problems first.
\<close>

theorem validateBatch_errors:
  "validateBatch JSON_parse (Inl e) ts = (if model_not_found e then Inl e else Inr [])
   \<and> (\<not> startsWith completion ''{'' \<longrightarrow>
        validateBatch JSON_parse (Inr completion) ts = Inr [])
   \<and> (startsWith completion ''{'' \<and> JSON_parse completion = Inl e \<longrightarrow>
        validateBatch JSON_parse (Inr completion) ts = (if model_not_found e then Inl e else Inr []))
   \<and> (startsWith completion ''{'' \<and> JSON_parse completion = Inr None \<longrightarrow>
        validateBatch JSON_parse (Inr completion) ts = Inr [])
   \<and> (startsWith completion ''{'' \<and> JSON_parse completion = Inr (Some vs) \<longrightarrow>
        validateBatch JSON_parse (Inr completion) ts =
          Inr (List.map_filter (expected_issue ts) (takeWhile (\<lambda>v. \<not> entry_raises ts v) vs)))
   \<and> (partition_loop (validTranslations items) batchSize (Finite 0) [] = Some (pre @ batch # post)
        \<and> batch_pass JSON_parse generate 0 pre (technical_validation (validTranslations items) [])
            = (acc, True)
        \<and> validateBatch JSON_parse (generate (length pre)) batch = Inl e
      \<longrightarrow> validatePoFile JSON_parse generate (Inr items) (Some batchSize) = Some (Inr acc))
   \<and> (validateBatch JSON_parse (generate n) batch = Inr [] \<longrightarrow>
        batch_pass JSON_parse generate n (batch # rest) allIssues
          = batch_pass JSON_parse generate (Suc n) rest allIssues)
   \<and> (validatePoFile JSON_parse generate (Inr items) bs = Some (Inr out) \<longrightarrow>
        keeps (technical_validation (validTranslations items) []) out)
   \<and> (1 \<le> k \<longrightarrow>
        (\<exists>out. validatePoFile JSON_parse generate (Inr items) (Some (Finite (of_int k)))
                = Some (Inr out)))"
proof (intro conjI impI)
  show "validateBatch JSON_parse (Inl e) ts = (if model_not_found e then Inl e else Inr [])"
    by (rule validateBatch_generate_fails)
next
  assume "\<not> startsWith completion ''{''"
  then show "validateBatch JSON_parse (Inr completion) ts = Inr []"
    by (rule validateBatch_not_JSON)
next
  assume "startsWith completion ''{'' \<and> JSON_parse completion = Inl e"
  then show "validateBatch JSON_parse (Inr completion) ts = (if model_not_found e then Inl e else Inr [])"
    using validateBatch_parse_fails by blast
next
  assume "startsWith completion ''{'' \<and> JSON_parse completion = Inr None"
  then show "validateBatch JSON_parse (Inr completion) ts = Inr []"
    using validateBatch_not_iterable by blast
next
  assume "startsWith completion ''{'' \<and> JSON_parse completion = Inr (Some vs)"
  then show "validateBatch JSON_parse (Inr completion) ts =
          Inr (List.map_filter (expected_issue ts) (takeWhile (\<lambda>v. \<not> entry_raises ts v) vs))"
    using validateBatch_parsed by blast
next
  assume a: "partition_loop (validTranslations items) batchSize (Finite 0) [] = Some (pre @ batch # post)
        \<and> batch_pass JSON_parse generate 0 pre (technical_validation (validTranslations items) [])
            = (acc, True)
        \<and> validateBatch JSON_parse (generate (length pre)) batch = Inl e"
  then have "batch_pass JSON_parse generate 0 (pre @ batch # post)
        (technical_validation (validTranslations items) []) = (acc, False)"
    using batch_pass_abort[of JSON_parse generate 0 pre _ acc batch e post] by simp
  with a show "validatePoFile JSON_parse generate (Inr items) (Some batchSize) = Some (Inr acc)"
    by (simp add: validatePoFile_def Let_def)
next
  assume "validateBatch JSON_parse (generate n) batch = Inr []"
  then show "batch_pass JSON_parse generate n (batch # rest) allIssues
          = batch_pass JSON_parse generate (Suc n) rest allIssues"
    by simp
next
  assume "validatePoFile JSON_parse generate (Inr items) bs = Some (Inr out)"
  then show "keeps (technical_validation (validTranslations items) []) out"
    by (rule validatePoFile_keeps)
next
  assume "1 \<le> k"
  then show "\<exists>out. validatePoFile JSON_parse generate (Inr items) (Some (Finite (of_int k)))
                = Some (Inr out)"
    by (rule validatePoFile_returns)
qed

text \<open>
  An absorbed error does not always leave the batch without issues. Below, the second
  entry of the response throws the \<open>TypeError\<close>, whose message names neither \<open>model\<close> nor
  \<open>not found\<close>; \<open>validateBatch\<close> absorbs it and returns the issue that the first entry
  had already produced.
\<close>

theorem validateBatch_errors_counterexample:
  "try_validation
       (\<lambda>s. Inr (Some [Some \<lparr>index = 1, has_issues = True, issues = Some [''too informal''],
                              suggested_fix = Some ''Labdien''\<rparr>,
                        Some \<lparr>index = 1, has_issues = True, issues = None,
                              suggested_fix = Some ''Labdien''\<rparr>]))
       (Inr ''{}'') [\<lparr>msgid = ''Hello'', msgstr = ''Sveiki''\<rparr>]
     = ([\<lparr>msgid = ''Hello'', msgstr = ''Sveiki'',
          problems = [\<lparr>type = linguistic_review, description = ''too informal''\<rparr>],
          suggestedFix = Some ''Labdien''\<rparr>],
        Some TypeError_join)
   \<and> \<not> (message_includes TypeError_join ''model'' \<and> message_includes TypeError_join ''not found'')
   \<and> validateBatch
       (\<lambda>s. Inr (Some [Some \<lparr>index = 1, has_issues = True, issues = Some [''too informal''],
                              suggested_fix = Some ''Labdien''\<rparr>,
                        Some \<lparr>index = 1, has_issues = True, issues = None,
                              suggested_fix = Some ''Labdien''\<rparr>]))
       (Inr ''{}'') [\<lparr>msgid = ''Hello'', msgstr = ''Sveiki''\<rparr>]
     = Inr [\<lparr>msgid = ''Hello'', msgstr = ''Sveiki'',
             problems = [\<lparr>type = linguistic_review, description = ''too informal''\<rparr>],
             suggestedFix = Some ''Labdien''\<rparr>]"
proof -
  have f: "first_occurrences [\<lparr>type = linguistic_review, description = ''too informal''\<rparr>]
            = [\<lparr>type = linguistic_review, description = ''too informal''\<rparr>]"
    by (simp add: Set_values_first_occurrences[symmetric] Set_values_def)
  have t: "try_validation
       (\<lambda>s. Inr (Some [Some \<lparr>index = 1, has_issues = True, issues = Some [''too informal''],
                              suggested_fix = Some ''Labdien''\<rparr>,
                        Some \<lparr>index = 1, has_issues = True, issues = None,
                              suggested_fix = Some ''Labdien''\<rparr>]))
       (Inr ''{}'') [\<lparr>msgid = ''Hello'', msgstr = ''Sveiki''\<rparr>]
     = ([\<lparr>msgid = ''Hello'', msgstr = ''Sveiki'',
          problems = [\<lparr>type = linguistic_review, description = ''too informal''\<rparr>],
          suggestedFix = Some ''Labdien''\<rparr>],
        Some TypeError_join)"
    using f
    by (simp add: try_validation_def at_index_def collect_problems_def
          checkPlaceholderConsistency_eq truthy_def dedup_problems_eq)
  have n: "\<not> (message_includes TypeError_join ''model'' \<and> message_includes TypeError_join ''not found'')"
    using TypeError_join_not_fatal by (simp add: model_not_found_def)
  from t n show ?thesis
    by (simp add: validateBatch_def)
qed

theorem validateBatch_errors_witness:
  "validatePoFile
     (\<lambda>s. Inr (Some [Some \<lparr>index = 1, has_issues = True, issues = Some [''placeholder lost''],
                            suggested_fix = Some ''Sveiks %s''\<rparr>]))
     (\<lambda>n. if n = 0 then Inr ''{}'' else Inl (Error (Some ''model llama2 not found'')))
     (Inr [Item ''Hi %s'' [''Sveiks''], Item ''Bye %s'' [''Atvadas'']]) (Some (Finite 1))
   = Some (Inr [\<lparr>msgid = ''Hi %s'', msgstr = ''Sveiks'',
           problems =
             [\<lparr>type = placeholder_mismatch, description = ''Missing placeholder(s): %s''\<rparr>,
              \<lparr>type = placeholder_mismatch, description = ''Missing placeholder(s): %s''\<rparr>,
              \<lparr>type = linguistic_review, description = ''placeholder lost''\<rparr>],
           suggestedFix = Some ''Sveiks %s''\<rparr>,
         \<lparr>msgid = ''Bye %s'', msgstr = ''Atvadas'',
           problems =
             [\<lparr>type = placeholder_mismatch, description = ''Missing placeholder(s): %s''\<rparr>],
           suggestedFix = Some ''Ensure all placeholders are present in translation''\<rparr>])
   \<and> validateBatch
       (\<lambda>s. Inr (Some [Some \<lparr>index = 1, has_issues = True, issues = Some [''placeholder lost''],
                            suggested_fix = Some ''Sveiks %s''\<rparr>]))
       (Inr ''Sure! Here is the JSON'') [\<lparr>msgid = ''Hi %s'', msgstr = ''Sveiks''\<rparr>] = Inr []"
proof -
  let ?P = "\<lambda>s::string. Inr (Some [Some \<lparr>index = 1, has_issues = True, issues = Some [''placeholder lost''],
                            suggested_fix = Some ''Sveiks %s''\<rparr>]) :: error + validation option list option"
  let ?g = "\<lambda>n::nat. if n = 0 then Inr ''{}'' else Inl (Error (Some ''model llama2 not found''))"
  let ?items = "[Item ''Hi %s'' [''Sveiks''], Item ''Bye %s'' [''Atvadas'']]"
  let ?t1 = "\<lparr>msgid = ''Hi %s'', msgstr = ''Sveiks''\<rparr>"
  let ?t2 = "\<lparr>msgid = ''Bye %s'', msgstr = ''Atvadas''\<rparr>"
  let ?pm = "\<lparr>type = placeholder_mismatch, description = ''Missing placeholder(s): %s''\<rparr>"
  let ?acc = "[\<lparr>msgid = ''Hi %s'', msgstr = ''Sveiks'',
           problems = [?pm, ?pm, \<lparr>type = linguistic_review, description = ''placeholder lost''\<rparr>],
           suggestedFix = Some ''Sveiks %s''\<rparr>,
         \<lparr>msgid = ''Bye %s'', msgstr = ''Atvadas'', problems = [?pm],
           suggestedFix = Some ''Ensure all placeholders are present in translation''\<rparr>]"
  let ?e = "Error (Some ''model llama2 not found'')"
  have fatal: "model_not_found ?e"
    by (simp add: model_not_found_def message_includes_def)
  have 1: "partition_loop (validTranslations ?items) (Finite 1) (Finite 0) [] = Some ([[?t1]] @ [?t2] # [])"
    by code_simp
  have 2: "batch_pass ?P ?g 0 [[?t1]] (technical_validation (validTranslations ?items) []) = (?acc, True)"
    by code_simp
  have 3: "validateBatch ?P (?g (length [[?t1]])) [?t2] = Inl ?e"
    by code_simp
  have 4: "\<not> startsWith ''Sure! Here is the JSON'' ''{''"
    by simp
  note inst = validateBatch_errors[where JSON_parse = ?P and generate = ?g and items = ?items
      and batchSize = "Finite 1" and k = 1 and pre = "[[?t1]]" and batch = "[?t2]" and post = "[]" and acc = ?acc
      and e = ?e and completion = "''Sure! Here is the JSON''" and ts = "[?t1]" and vs = "[]"
      and n = 0 and rest = "[]" and allIssues = "[]" and bs = None and out = "[]"]
  from inst 1 2 3 have a: "validatePoFile ?P ?g (Inr ?items) (Some (Finite 1)) = Some (Inr ?acc)"
    by blast
  from inst 4 have b: "validateBatch ?P (Inr ''Sure! Here is the JSON'') [?t1] = Inr []"
    by blast
  from a b show ?thesis by blast
qed

end
